theory Spec2Isabelle
  imports Complex_Main
begin

section \<open>Emotion detection service: Backend/emotion\_service.py\<close>

text \<open>
  A shallow embedding of \<^verbatim>\<open>process_frame\<close> and \<^verbatim>\<open>main_loop\<close>.
  The face cascade, the YOLO model, \<^verbatim>\<open>json.loads\<close>, \<^verbatim>\<open>base64.b64decode\<close> and
  \<^verbatim>\<open>cv2.imdecode\<close> are libraries outside the repository: they are fields of an
  environment record, each returning either the exception it raises (\<open>Inl\<close>) or its
  value (\<open>Inr\<close>). Python floats are modelled as rationals (no NaN, no rounding error),
  numpy and Python integers as \<open>int\<close>.
\<close>

subsection \<open>Constants (lines 20--37)\<close>

definition emotions :: "string list" where
  "emotions = [''Anger'', ''Contempt'', ''Disgust'', ''Fear'',
               ''Happy'', ''Neutral'', ''Sad'', ''Surprise'']"

text \<open>The dict \<^verbatim>\<open>colors_bgr\<close>, as its items in source order.\<close>

definition colors_bgr :: "(string \<times> (nat \<times> nat \<times> nat)) list" where
  "colors_bgr =
    [(''Anger'', (0, 0, 255)),
     (''Contempt'', (128, 0, 128)),
     (''Disgust'', (0, 128, 0)),
     (''Fear'', (0, 255, 255)),
     (''Happy'', (0, 255, 0)),
     (''Neutral'', (255, 255, 255)),
     (''Sad'', (255, 0, 0)),
     (''Surprise'', (0, 165, 255))]"

text \<open>An exception: its class name and \<^verbatim>\<open>str(e)\<close>.\<close>

datatype exn = Exn string string

fun str_of :: "exn \<Rightarrow> string" where
  "str_of (Exn cls msg) = msg"

definition hex_digit :: "nat \<Rightarrow> char" where
  "hex_digit d = ''0123456789ABCDEF'' ! (d mod 16)"

fun hex_digits :: "nat \<Rightarrow> string" where
  "hex_digits n =
     (if n < 16 then [hex_digit n] else hex_digits (n div 16) @ [hex_digit (n mod 16)])"

text \<open>The format spec \<^verbatim>\<open>:02X\<close>: upper-case hexadecimal, zero-padded to width 2.\<close>

definition fmt_02X :: "nat \<Rightarrow> string" where
  "fmt_02X n = (let s = hex_digits n in replicate (2 - length s) (CHR ''0'') @ s)"

fun bgr_to_rgb_hex :: "nat \<times> nat \<times> nat \<Rightarrow> string" where
  "bgr_to_rgb_hex (b, g, r) = ''#'' @ fmt_02X r @ fmt_02X g @ fmt_02X b"

text \<open>
  \<^verbatim>\<open>colors_bgr[e]\<close>: a missing key raises KeyError, whose \<^verbatim>\<open>str\<close> is the key
  in quotes.
\<close>

definition colors_lookup :: "string \<Rightarrow> exn + (nat \<times> nat \<times> nat)" where
  "colors_lookup e =
     (case map_of colors_bgr e of
        None \<Rightarrow> Inl (Exn ''KeyError'' ([CHR 0x27] @ e @ [CHR 0x27]))
      | Some c \<Rightarrow> Inr c)"

text \<open>Truthiness of a value that is a string or \<^verbatim>\<open>None\<close>.\<close>

fun truthy :: "string option \<Rightarrow> bool" where
  "truthy None = False"
| "truthy (Some s) = (s \<noteq> [])"

text \<open>\<^verbatim>\<open>round(x, 4)\<close> on a float, as round-half-even on the rational.\<close>

definition round_half_even :: "rat \<Rightarrow> int" where
  "round_half_even q =
     (let f = \<lfloor>q\<rfloor>; d = q - of_int f
      in if d < 1 / 2 then f
         else if 1 / 2 < d then f + 1
         else if even f then f else f + 1)"

definition round4 :: "rat \<Rightarrow> rat" where
  "round4 q = of_int (round_half_even (q * 10000)) / 10000"

text \<open>\<^verbatim>\<open>int(x)\<close> on a float truncates towards zero.\<close>

definition py_int :: "rat \<Rightarrow> int" where
  "py_int q = (if 0 \<le> q then \<lfloor>q\<rfloor> else \<lceil>q\<rceil>)"

subsection \<open>What the classifier returns\<close>

text \<open>
  A box of \<^verbatim>\<open>result.boxes\<close>: \<open>box_conf_cls\<close> is \<open>None\<close> when reading
  \<^verbatim>\<open>float(box.conf[0])\<close> or \<^verbatim>\<open>int(box.cls[0])\<close> raises, and the pair (confidence,
  class id) otherwise; \<open>box_xyxy\<close> is \<open>None\<close> when the box has no attribute
  \<^verbatim>\<open>xyxy\<close>, and \<^verbatim>\<open>box.xyxy[0].tolist()\<close> otherwise.
\<close>

record box =
  box_conf_cls :: "(rat \<times> int) option"
  box_xyxy :: "rat list option"

text \<open>
  \<^verbatim>\<open>result.probs\<close>: \<open>ProbsRaise\<close> when anything in the \<^verbatim>\<open>try\<close> of lines
  101--111 raises; otherwise \<^verbatim>\<open>top1\<close> (already through \<^verbatim>\<open>int\<close>) and
  \<^verbatim>\<open>top1conf\<close> (already through \<^verbatim>\<open>float\<close>), each possibly \<^verbatim>\<open>None\<close>.
\<close>

datatype probs = ProbsRaise | Probs "int option" "rat option"

record yresult =
  boxes :: "box list option"
  probs :: "probs option"

text \<open>The loop state \<^verbatim>\<open>(best_emotion, best_conf, roi_box_count)\<close>.\<close>

type_synonym best = "string option \<times> rat \<times> nat"

text \<open>
  Lines 86--96, and again lines 130--140 for the whole frame: the loop over the boxes
  of one result.
\<close>

fun scan_boxes :: "box list \<Rightarrow> best \<Rightarrow> best" where
  "scan_boxes [] st = st"
| "scan_boxes (b # bs) (best_emotion, best_conf, n) =
     (case box_conf_cls b of
        None \<Rightarrow> scan_boxes bs (best_emotion, best_conf, n)
      | Some (confidence, class_id) \<Rightarrow>
          if best_conf < confidence then
            scan_boxes bs
              (if 0 \<le> class_id \<and> class_id < int (length emotions)
               then Some (emotions ! nat class_id) else best_emotion,
               confidence, n + 1)
          else scan_boxes bs (best_emotion, best_conf, n + 1))"

text \<open>
  Lines 99--113: the classification path of one result. The flag in the result says that
  lines 110--111 ran (they set \<^verbatim>\<open>'classification'\<close> on the dict the local
  \<^verbatim>\<open>debug_entry\<close> is bound to).
\<close>

fun scan_probs :: "probs option \<Rightarrow> string option \<times> rat \<Rightarrow> (string option \<times> rat) \<times> bool" where
  "scan_probs None st = (st, False)"
| "scan_probs (Some ProbsRaise) st = (st, False)"
| "scan_probs (Some (Probs top1 top1conf)) (best_emotion, best_conf) =
     (let confidence = (case top1conf of None \<Rightarrow> 0 | Some c \<Rightarrow> c)
      in case top1 of
           None \<Rightarrow> ((best_emotion, best_conf), False)
         | Some class_id \<Rightarrow>
             if 0 \<le> class_id \<and> class_id < int (length emotions) then
               if best_conf < confidence
               then ((Some (emotions ! nat class_id), confidence), True)
               else ((best_emotion, best_conf), False)
             else ((best_emotion, best_conf), False))"

text \<open>
  Lines 82--113: the loop over \<^verbatim>\<open>results\<close>. The last component is true when
  some iteration ran lines 110--111.
\<close>

fun scan_results :: "yresult list \<Rightarrow> best \<times> bool \<Rightarrow> best \<times> bool" where
  "scan_results [] st = st"
| "scan_results (r # rs) ((best_emotion, best_conf, n), flag) =
     (case boxes r of
        Some (b # bs) \<Rightarrow>
          scan_results rs (scan_boxes (b # bs) (best_emotion, best_conf, n), flag)
      | _ \<Rightarrow>
          (case scan_probs (probs r) (best_emotion, best_conf) of
             ((e, c), hit) \<Rightarrow> scan_results rs ((e, c, n), flag \<or> hit)))"

text \<open>Lines 126--140: the loop over \<^verbatim>\<open>full_results\<close> of the fallback.\<close>

fun scan_full :: "yresult list \<Rightarrow> best \<Rightarrow> best" where
  "scan_full [] st = st"
| "scan_full (fr # frs) st =
     (case boxes fr of
        None \<Rightarrow> scan_full frs st
      | Some fboxes \<Rightarrow> scan_full frs (scan_boxes fboxes st))"

subsection \<open>Frames, detections, diagnostics, the environment\<close>

text \<open>A decoded frame: \<^verbatim>\<open>frame_bgr.shape[:2]\<close> and its pixel bytes (opaque to the code).\<close>

record frame =
  h_frame :: nat
  w_frame :: nat
  pixels :: "nat list"

text \<open>
  Length of the numpy slice \<^verbatim>\<open>a[start:stop]\<close> of an axis of length \<open>n\<close>: a
  negative index counts from the end, indices are clipped to the axis.
\<close>

definition slice_len :: "nat \<Rightarrow> int \<Rightarrow> int \<Rightarrow> nat" where
  "slice_len n start stop =
     (let norm = (\<lambda>i. if i < 0 then max (i + int n) 0 else min i (int n))
      in nat (norm stop - norm start))"

text \<open>
  An entry of \<^verbatim>\<open>results_output\<close>. \<open>source\<close> is \<open>None\<close> when the dict has no key
  \<^verbatim>\<open>"source"\<close>.
\<close>

record detection =
  det_x1 :: int
  det_y1 :: int
  det_x2 :: int
  det_y2 :: int
  emotion :: "string option"
  confidence :: rat
  color :: string
  source :: "string option"

text \<open>
  The dict \<^verbatim>\<open>debug_entry\<close> of one face. An optional key is \<open>None\<close> when absent;
  \<open>classification\<close> and \<open>fallbackUsed\<close> are only ever absent or \<^verbatim>\<open>True\<close>, so
  \<open>False\<close> stands for absent.
\<close>

record face_debug =
  faceRect :: "int \<times> int \<times> int \<times> int"
  roiBoxes :: nat
  bestConf :: rat
  classification :: bool
  fallbackFullBoxes :: "nat option"
  fallbackUsed :: bool
  fallbackBestConf :: "rat option"
  fallbackError :: "string option"

datatype debug_entry =
    FaceDebug face_debug
  | DirectDetections nat
  | DirectError string

text \<open>What the model is called on: the crop \<^verbatim>\<open>frame_bgr[y1:y2, x1:x2]\<close> or the frame.\<close>

datatype target = Roi int int int int | Full_frame

text \<open>The calls made to the two external components, in order.\<close>

datatype call = CallProposer | CallModel target rat

text \<open>A value \<^verbatim>\<open>json.loads\<close> returns; a dict as its items, keys distinct.\<close>

datatype json =
    JNull
  | JBool bool
  | JInt int
  | JFloat rat
  | JStr string
  | JArr "json list"
  | JObj "(string \<times> json) list"

text \<open>
  The configured mode (line 21) and the libraries the code calls: the face cascade, the
  model (on the crop or the frame, with its confidence floor), \<^verbatim>\<open>json.loads\<close>,
  \<^verbatim>\<open>base64.b64decode\<close> and \<^verbatim>\<open>cv2.imdecode\<close> (\<open>None\<close> when it returns
  \<^verbatim>\<open>None\<close>).
\<close>

record env =
  EMOTION_MODE :: string
  detectMultiScale :: "frame \<Rightarrow> exn + (int \<times> int \<times> int \<times> int) list"
  model :: "frame \<Rightarrow> target \<Rightarrow> rat \<Rightarrow> exn + yresult list"
  json_loads :: "string \<Rightarrow> exn + json"
  b64decode :: "string \<Rightarrow> exn + nat list"
  imdecode :: "nat list \<Rightarrow> exn + frame option"

record loop_state =
  results_output :: "detection list"
  emotion_counts :: "(string \<times> nat) list"
  debug_entries :: "debug_entry list"
  calls :: "call list"

subsection \<open>The loop over the proposed faces (lines 65--168)\<close>

text \<open>
  \<^verbatim>\<open>emotion_counts[k] = emotion_counts.get(k, 0) + 1\<close> on a dict, kept as its items in
  insertion order: an existing key keeps its place, a new key goes last.
\<close>

fun bump :: "(string \<times> nat) list \<Rightarrow> string \<Rightarrow> (string \<times> nat) list" where
  "bump [] k = [(k, 1)]"
| "bump ((k', v) # kvs) k =
     (if k' = k then (k', v + 1) # kvs else (k', v) # bump kvs k)"

text \<open>
  Lines 110--111 reach the dict the local \<^verbatim>\<open>debug_entry\<close> is bound to: the entry of
  the last face that got to line 114, which is the last element of
  \<^verbatim>\<open>debug_entries\<close>; with no such face it is a fresh dict that line 114 drops.
\<close>

fun set_classification :: "debug_entry \<Rightarrow> debug_entry" where
  "set_classification (FaceDebug d) = FaceDebug (d\<lparr>classification := True\<rparr>)"
| "set_classification e = e"

definition mark_previous :: "debug_entry list \<Rightarrow> debug_entry list" where
  "mark_previous ds =
     (case rev ds of [] \<Rightarrow> [] | d # r \<Rightarrow> rev r @ [set_classification d])"

text \<open>
  Lines 119--148, entered when \<^verbatim>\<open>best_emotion is None\<close>: the fallback on the whole
  frame. It returns \<^verbatim>\<open>best_emotion\<close>, \<^verbatim>\<open>best_conf\<close> and the debug entry.
\<close>

definition fallback ::
  "env \<Rightarrow> frame \<Rightarrow> rat \<Rightarrow> face_debug \<Rightarrow> string option \<times> rat \<times> face_debug" where
  "fallback ev fr best_conf debug_entry =
     (case model ev fr Full_frame (1 / 20) of
        Inl fe \<Rightarrow> (None, best_conf, debug_entry\<lparr>fallbackError := Some (str_of fe)\<rparr>)
      | Inr full_results \<Rightarrow>
          (case scan_full full_results (None, 0, 0) of
             (full_best_emotion, full_best_conf, full_box_count) \<Rightarrow>
               let debug_entry = debug_entry\<lparr>fallbackFullBoxes := Some full_box_count\<rparr>
               in if truthy full_best_emotion \<and> best_conf < full_best_conf
                  then (full_best_emotion, full_best_conf,
                        debug_entry\<lparr>fallbackUsed := True,
                                     fallbackBestConf := Some (round4 full_best_conf)\<rparr>)
                  else (None, best_conf, debug_entry)))"

text \<open>Lines 149--168: count the label, pick the colour, clamp, append.\<close>

definition emit_face ::
  "frame \<Rightarrow> loop_state \<Rightarrow> int \<times> int \<times> int \<times> int \<Rightarrow> string option \<Rightarrow> rat \<Rightarrow> face_debug
     \<Rightarrow> exn + loop_state" where
  "emit_face fr st rect best_emotion best_conf debug_entry =
     (case rect of (x1, y1, x2, y2) \<Rightarrow>
      (case (if truthy best_emotion
             then (case best_emotion of
                     Some e \<Rightarrow>
                       (case colors_lookup e of
                          Inl err \<Rightarrow> Inl err
                        | Inr c \<Rightarrow> Inr (bump (emotion_counts st) e, bgr_to_rgb_hex c))
                   | None \<Rightarrow> Inr (emotion_counts st, ''#FFFFFF''))
             else Inr (emotion_counts st, ''#FFFFFF'')) of
         Inl err \<Rightarrow> Inl err
       | Inr (counts, color_hex) \<Rightarrow>
           let x1c = max 0 (min x1 (int (w_frame fr) - 1));
               y1c = max 0 (min y1 (int (h_frame fr) - 1));
               x2c = max 0 (min x2 (int (w_frame fr)));
               y2c = max 0 (min y2 (int (h_frame fr)))
           in Inr (st\<lparr>results_output := results_output st @
                         [\<lparr>det_x1 = x1c, det_y1 = y1c, det_x2 = x2c, det_y2 = y2c,
                           emotion = best_emotion, confidence = round4 best_conf,
                           color = color_hex, source = None\<rparr>],
                       emotion_counts := counts,
                       debug_entries := debug_entries st @ [FaceDebug debug_entry]\<rparr>)))"

text \<open>Lines 79--168: what one iteration does with the classifier's \<^verbatim>\<open>results\<close>.\<close>

definition new_debug_entry :: "int \<times> int \<times> int \<times> int \<Rightarrow> nat \<Rightarrow> rat \<Rightarrow> face_debug" where
  "new_debug_entry rect roi_box_count best_conf =
     \<lparr>faceRect = rect, roiBoxes = roi_box_count, bestConf = round4 best_conf,
      classification = False, fallbackFullBoxes = None, fallbackUsed = False,
      fallbackBestConf = None, fallbackError = None\<rparr>"

definition classify_face ::
  "env \<Rightarrow> frame \<Rightarrow> loop_state \<Rightarrow> int \<times> int \<times> int \<times> int \<Rightarrow> yresult list
     \<Rightarrow> exn + loop_state" where
  "classify_face ev fr st rect results =
     (case scan_results results ((None, 0, 0), False) of
        ((best_emotion, best_conf, roi_box_count), hit) \<Rightarrow>
          (let st1 = (if hit then st\<lparr>debug_entries := mark_previous (debug_entries st)\<rparr>
                      else st);
               debug_entry = new_debug_entry rect roi_box_count best_conf
           in (if best_emotion = None
               then (case fallback ev fr best_conf debug_entry of
                       (fb_emotion, fb_conf, fb_debug) \<Rightarrow>
                         emit_face fr
                           (st1\<lparr>calls := calls st1 @ [CallModel Full_frame (1 / 20)]\<rparr>)
                           rect fb_emotion fb_conf fb_debug)
               else emit_face fr st1 rect best_emotion best_conf debug_entry)))"

text \<open>
  The rectangles of \<^verbatim>\<open>detectMultiScale\<close> are rows of an int32 array, so \<^verbatim>\<open>x\<close>,
  \<^verbatim>\<open>y\<close>, \<^verbatim>\<open>w\<close>, \<^verbatim>\<open>h\<close> are numpy int32 scalars and their sums and differences
  (also with the Python int \<^verbatim>\<open>padding\<close>) wrap around at 32 bits.
\<close>

definition int32 :: "int \<Rightarrow> int" where
  "int32 i = (i + 2147483648) mod 4294967296 - 2147483648"

text \<open>
  One iteration of the loop of line 65: pad and clamp (lines 66--70), skip a crop under
  50 pixels (72--73), call the model on the crop and skip the face when it raises
  (74--78).
\<close>

definition process_face ::
  "env \<Rightarrow> frame \<Rightarrow> loop_state \<Rightarrow> int \<times> int \<times> int \<times> int \<Rightarrow> exn + loop_state" where
  "process_face ev fr st face =
     (case face of (x, y, w, h) \<Rightarrow>
       (let padding = 20;
            x1 = max 0 (int32 (x - padding));
            y1 = max 0 (int32 (y - padding));
            x2 = min (int (w_frame fr)) (int32 (int32 (x + w) + padding));
            y2 = min (int (h_frame fr)) (int32 (int32 (y + h) + padding))
        in (if slice_len (h_frame fr) y1 y2 < 50 \<or> slice_len (w_frame fr) x1 x2 < 50
            then Inr st
            else (let st1 = st\<lparr>calls := calls st @ [CallModel (Roi y1 y2 x1 x2) (1 / 20)]\<rparr>
                  in (case model ev fr (Roi y1 y2 x1 x2) (1 / 20) of
                        Inl err \<Rightarrow> Inr st1
                      | Inr results \<Rightarrow> classify_face ev fr st1 (x1, y1, x2, y2) results)))))"

fun face_loop ::
  "env \<Rightarrow> frame \<Rightarrow> (int \<times> int \<times> int \<times> int) list \<Rightarrow> loop_state \<Rightarrow> exn + loop_state" where
  "face_loop ev fr [] st = Inr st"
| "face_loop ev fr (face # faces) st =
     (case process_face ev fr st face of
        Inl err \<Rightarrow> Inl err
      | Inr st' \<Rightarrow> face_loop ev fr faces st')"

subsection \<open>The direct pass on the whole frame (lines 169--208)\<close>

fun dec_digits :: "nat \<Rightarrow> string" where
  "dec_digits n =
     (if n < 10 then [''0123456789'' ! n]
      else dec_digits (n div 10) @ [''0123456789'' ! (n mod 10)])"

text \<open>Line 187: unpacking a list into four names raises ValueError on any other length.\<close>

definition unpack4 :: "rat list \<Rightarrow> exn + (rat \<times> rat \<times> rat \<times> rat)" where
  "unpack4 l =
     (case l of
        [a, b, c, d] \<Rightarrow> Inr (a, b, c, d)
      | _ \<Rightarrow>
          Inl (Exn ''ValueError''
                (if length l < 4
                 then ''not enough values to unpack (expected 4, got '' @
                      dec_digits (length l) @ '')''
                 else ''too many values to unpack (expected 4)'')))"

text \<open>Lines 185--189: the box of a detection, or the whole frame when it has none.\<close>

definition box_coords :: "frame \<Rightarrow> box \<Rightarrow> exn + (rat \<times> rat \<times> rat \<times> rat)" where
  "box_coords fr dbox =
     (case box_xyxy dbox of
        None \<Rightarrow> Inr (0, 0, of_nat (w_frame fr), of_nat (h_frame fr))
      | Some bxyxy \<Rightarrow>
          if bxyxy = [] then Inr (0, 0, of_nat (w_frame fr), of_nat (h_frame fr))
          else unpack4 bxyxy)"

text \<open>Lines 178--203: the loop over the boxes of one result, appending to \<^verbatim>\<open>picked\<close>.\<close>

fun pick_boxes :: "frame \<Rightarrow> box list \<Rightarrow> detection list \<Rightarrow> exn + detection list" where
  "pick_boxes fr [] picked = Inr picked"
| "pick_boxes fr (dbox # dboxes) picked =
     (case box_conf_cls dbox of
        None \<Rightarrow> pick_boxes fr dboxes picked
      | Some (conf, cls_id) \<Rightarrow>
          if 0 \<le> cls_id \<and> cls_id < int (length emotions) then
            (case box_coords fr dbox of
               Inl err \<Rightarrow> Inl err
             | Inr (x1d, y1d, x2d, y2d) \<Rightarrow>
                 (case colors_lookup (emotions ! nat cls_id) of
                    Inl err \<Rightarrow> Inl err
                  | Inr c \<Rightarrow>
                      pick_boxes fr dboxes
                        (picked @
                         [\<lparr>det_x1 = py_int (max 0 (min x1d (of_int (int (w_frame fr) - 1)))),
                           det_y1 = py_int (max 0 (min y1d (of_int (int (h_frame fr) - 1)))),
                           det_x2 = py_int (max 0 (min x2d (of_nat (w_frame fr)))),
                           det_y2 = py_int (max 0 (min y2d (of_nat (h_frame fr)))),
                           emotion = Some (emotions ! nat cls_id),
                           confidence = round4 conf,
                           color = bgr_to_rgb_hex c,
                           source = Some ''direct''\<rparr>])))
          else pick_boxes fr dboxes picked)"

text \<open>Lines 174--203: the loop over \<^verbatim>\<open>direct_results\<close>.\<close>

fun pick_results :: "frame \<Rightarrow> yresult list \<Rightarrow> detection list \<Rightarrow> exn + detection list" where
  "pick_results fr [] picked = Inr picked"
| "pick_results fr (dr # drs) picked =
     (case boxes dr of
        None \<Rightarrow> pick_results fr drs picked
      | Some dboxes \<Rightarrow>
          (case pick_boxes fr dboxes picked of
             Inl err \<Rightarrow> Inl err
           | Inr picked' \<Rightarrow> pick_results fr drs picked'))"

text \<open>The condition of line 170.\<close>

definition direct_wanted :: "env \<Rightarrow> loop_state \<Rightarrow> bool" where
  "direct_wanted ev st =
     ((results_output st = [] \<or> list_all (\<lambda>r. emotion r = None) (results_output st)) \<and>
      (EMOTION_MODE ev = ''direct'' \<or> EMOTION_MODE ev = ''hybrid''))"

text \<open>Lines 170--208. Every exception of the \<^verbatim>\<open>try\<close> ends in a \<^verbatim>\<open>directError\<close> entry.\<close>

definition direct_stage :: "env \<Rightarrow> frame \<Rightarrow> loop_state \<Rightarrow> loop_state" where
  "direct_stage ev fr st =
     (if direct_wanted ev st then
        (let st1 = st\<lparr>calls := calls st @ [CallModel Full_frame (1 / 4)]\<rparr>
         in (case model ev fr Full_frame (1 / 4) of
               Inl de \<Rightarrow>
                 st1\<lparr>debug_entries := debug_entries st1 @ [DirectError (str_of de)]\<rparr>
             | Inr direct_results \<Rightarrow>
                 (case pick_results fr direct_results [] of
                    Inl de \<Rightarrow>
                      st1\<lparr>debug_entries := debug_entries st1 @ [DirectError (str_of de)]\<rparr>
                  | Inr picked \<Rightarrow>
                      if picked \<noteq> []
                      then st1\<lparr>results_output := picked,
                               debug_entries :=
                                 debug_entries st1 @ [DirectDetections (length picked)]\<rparr>
                      else st1)))
      else st)"

subsection \<open>The dominant emotion (lines 210--219) and \<^verbatim>\<open>process_frame\<close>\<close>

text \<open>Lines 214--215, for one entry of \<^verbatim>\<open>results_output\<close>.\<close>

definition count_detection :: "(string \<times> nat) list \<Rightarrow> detection \<Rightarrow> (string \<times> nat) list" where
  "count_detection counts r =
     (case emotion r of
        None \<Rightarrow> counts
      | Some e \<Rightarrow> if e \<noteq> [] then bump counts e else counts)"

text \<open>
  \<^verbatim>\<open>max(items, key=lambda kv: kv[1])\<close>: the first item with the greatest count.
\<close>

fun max_item :: "string \<times> nat \<Rightarrow> (string \<times> nat) list \<Rightarrow> string \<times> nat" where
  "max_item best_kv [] = best_kv"
| "max_item best_kv (kv # kvs) =
     (if snd best_kv < snd kv then max_item kv kvs else max_item best_kv kvs)"

definition final_counts :: "loop_state \<Rightarrow> (string \<times> nat) list" where
  "final_counts st =
     (if results_output st \<noteq> [] \<and> emotion_counts st = []
      then foldl count_detection [] (results_output st)
      else emotion_counts st)"

definition dominant_of :: "(string \<times> nat) list \<Rightarrow> string option" where
  "dominant_of counts =
     (case counts of
        [] \<Rightarrow> None
      | kv # kvs \<Rightarrow> Some (fst (max_item kv kvs)))"

text \<open>
  What \<^verbatim>\<open>process_frame\<close> returns, with the calls it made to the proposer and the
  model.
\<close>

record frame_out =
  faces :: "detection list"
  dominant :: "string option"
  dims :: "nat \<times> nat"
  debug :: "debug_entry list"
  out_calls :: "call list"

text \<open>
  Lines 49--168: the proposer is called in the modes \<^verbatim>\<open>cascade\<close> and
  \<^verbatim>\<open>hybrid\<close> only; then the loop over the faces. (\<^verbatim>\<open>cv2.cvtColor\<close> on a decoded
  colour frame is taken not to raise.)
\<close>

definition region_stage :: "env \<Rightarrow> frame \<Rightarrow> exn + loop_state" where
  "region_stage ev fr =
     (if EMOTION_MODE ev = ''cascade'' \<or> EMOTION_MODE ev = ''hybrid''
      then (case detectMultiScale ev fr of
              Inl err \<Rightarrow> Inl err
            | Inr found \<Rightarrow>
                face_loop ev fr found
                  \<lparr>results_output = [], emotion_counts = [], debug_entries = [],
                   calls = [CallProposer]\<rparr>)
      else face_loop ev fr []
             \<lparr>results_output = [], emotion_counts = [], debug_entries = [], calls = []\<rparr>)"

definition process_frame :: "env \<Rightarrow> frame \<Rightarrow> exn + frame_out" where
  "process_frame ev fr =
     (case region_stage ev fr of
        Inl err \<Rightarrow> Inl err
      | Inr st \<Rightarrow>
          (let st2 = direct_stage ev fr st
           in Inr \<lparr>faces = results_output st2,
                   dominant = dominant_of (final_counts st2),
                   dims = (w_frame fr, h_frame fr),
                   debug = debug_entries st2,
                   out_calls = calls st2\<rparr>))"

subsection \<open>The request loop (lines 222--246)\<close>

text \<open>
  A line of input is the list of its code points, each below 256. \<^verbatim>\<open>str.strip()\<close>
  removes the white space of Unicode; of the code points below 256 these are tab, line
  feed, vertical tab, form feed, carriage return (9--13), the separators 28--31, the
  space (32), next line (133) and the no-break space (160).
\<close>

definition is_space :: "char \<Rightarrow> bool" where
  "is_space c = ((9 \<le> (of_char c :: nat) \<and> (of_char c :: nat) \<le> 13) \<or>
                 (28 \<le> (of_char c :: nat) \<and> (of_char c :: nat) \<le> 32) \<or>
                 (of_char c :: nat) = 133 \<or> (of_char c :: nat) = 160)"

definition strip :: "string \<Rightarrow> string" where
  "strip s = rev (dropWhile is_space (rev (dropWhile is_space s)))"

text \<open>Truthiness of a JSON value (\<^verbatim>\<open>not image_data\<close>).\<close>

fun json_truthy :: "json \<Rightarrow> bool" where
  "json_truthy JNull = False"
| "json_truthy (JBool b) = b"
| "json_truthy (JInt i) = (i \<noteq> 0)"
| "json_truthy (JFloat q) = (q \<noteq> 0)"
| "json_truthy (JStr s) = (s \<noteq> [])"
| "json_truthy (JArr l) = (l \<noteq> [])"
| "json_truthy (JObj d) = (d \<noteq> [])"

fun type_name :: "json \<Rightarrow> string" where
  "type_name JNull = ''NoneType''"
| "type_name (JBool b) = ''bool''"
| "type_name (JInt i) = ''int''"
| "type_name (JFloat q) = ''float''"
| "type_name (JStr s) = ''str''"
| "type_name (JArr l) = ''list''"
| "type_name (JObj d) = ''dict''"

definition no_attribute :: "json \<Rightarrow> string \<Rightarrow> exn" where
  "no_attribute v a =
     Exn ''AttributeError''
       ([CHR 0x27] @ type_name v @ [CHR 0x27] @ '' object has no attribute '' @
        [CHR 0x27] @ a @ [CHR 0x27])"

text \<open>\<^verbatim>\<open>payload.get(key)\<close>: only a dict has the method; a missing key gives \<^verbatim>\<open>None\<close>.\<close>

definition py_get :: "json \<Rightarrow> string \<Rightarrow> exn + json" where
  "py_get payload key =
     (case payload of
        JObj d \<Rightarrow> Inr (case map_of d key of None \<Rightarrow> JNull | Some v \<Rightarrow> v)
      | _ \<Rightarrow> Inl (no_attribute payload ''get''))"

text \<open>\<^verbatim>\<open>"," in image_data\<close>.\<close>

definition has_comma :: "json \<Rightarrow> exn + bool" where
  "has_comma v =
     (case v of
        JStr s \<Rightarrow> Inr (CHR '','' \<in> set s)
      | JArr l \<Rightarrow> Inr (JStr '','' \<in> set l)
      | JObj d \<Rightarrow> Inr ('','' \<in> set (map fst d))
      | _ \<Rightarrow>
          Inl (Exn ''TypeError''
                (''argument of type '' @ [CHR 0x27] @ type_name v @ [CHR 0x27] @
                 '' is not iterable'')))"

text \<open>\<^verbatim>\<open>image_data.split(",", 1)[1]\<close>, reached only when a comma is in it.\<close>

definition after_comma :: "json \<Rightarrow> exn + json" where
  "after_comma v =
     (case v of
        JStr s \<Rightarrow>
          (case dropWhile (\<lambda>c. c \<noteq> CHR '','') s of
             [] \<Rightarrow> Inl (Exn ''IndexError'' ''list index out of range'')
           | c # t \<Rightarrow> Inr (JStr t))
      | _ \<Rightarrow> Inl (no_attribute v ''split''))"

text \<open>Lines 236--240: decode the payload into a frame.\<close>

definition decode_frame :: "env \<Rightarrow> json \<Rightarrow> exn + frame" where
  "decode_frame ev v =
     (case v of
        JStr s \<Rightarrow>
          (case b64decode ev s of
             Inl err \<Rightarrow> Inl err
           | Inr img_bytes \<Rightarrow>
               (case imdecode ev img_bytes of
                  Inl err \<Rightarrow> Inl err
                | Inr None \<Rightarrow> Inl (Exn ''ValueError'' ''Failed to decode image'')
                | Inr (Some fr) \<Rightarrow> Inr fr))
      | _ \<Rightarrow>
          Inl (Exn ''TypeError''
                (''argument should be a bytes-like object or ASCII string, not '' @
                 [CHR 0x27] @ type_name v @ [CHR 0x27])))"

text \<open>The dict \<^verbatim>\<open>out\<close>; a key that is not set is \<open>None\<close>.\<close>

record response =
  resp_id :: json
  resp_error :: "string option"
  resp_faces :: "detection list"
  resp_dominant :: "string option"
  resp_frame :: "(nat \<times> nat) option"
  resp_debug :: "debug_entry list option"

text \<open>Lines 229--242: the body of the \<^verbatim>\<open>try\<close> after \<^verbatim>\<open>json.loads\<close>.\<close>

definition try_body :: "env \<Rightarrow> json \<Rightarrow> exn + response" where
  "try_body ev payload =
     (case py_get payload ''id'' of
        Inl err \<Rightarrow> Inl err
      | Inr req_id \<Rightarrow>
     (case py_get payload ''image'' of
        Inl err \<Rightarrow> Inl err
      | Inr image_data \<Rightarrow>
          if \<not> json_truthy image_data then Inl (Exn ''ValueError'' ''Missing image'')
          else
     (case has_comma image_data of
        Inl err \<Rightarrow> Inl err
      | Inr comma \<Rightarrow>
     (case (if comma then after_comma image_data else Inr image_data) of
        Inl err \<Rightarrow> Inl err
      | Inr image_data' \<Rightarrow>
     (case decode_frame ev image_data' of
        Inl err \<Rightarrow> Inl err
      | Inr fr \<Rightarrow>
     (case process_frame ev fr of
        Inl err \<Rightarrow> Inl err
      | Inr out \<Rightarrow>
          Inr \<lparr>resp_id = req_id, resp_error = None, resp_faces = faces out,
               resp_dominant = dominant out, resp_frame = Some (dims out),
               resp_debug = Some (debug out)\<rparr>))))))"

text \<open>
  Line 244, the handler. \<open>bound\<close> is what the local \<^verbatim>\<open>payload\<close> is bound to, if
  anything: the handler calls \<^verbatim>\<open>payload.get\<close> again, outside any \<^verbatim>\<open>try\<close>.
\<close>

definition handler :: "json option \<Rightarrow> exn \<Rightarrow> exn + response" where
  "handler bound e =
     (case (case bound of None \<Rightarrow> Inr JNull | Some payload \<Rightarrow> py_get payload ''id'') of
        Inl err \<Rightarrow> Inl err
      | Inr i \<Rightarrow>
          Inr \<lparr>resp_id = i, resp_error = Some (str_of e), resp_faces = [],
               resp_dominant = None, resp_frame = None, resp_debug = None\<rparr>)"

text \<open>
  Lines 227--244 for one stripped, non-empty line: the response or the exception that
  escapes, and what \<^verbatim>\<open>payload\<close> is bound to afterwards (the local survives from one
  iteration to the next).
\<close>

definition handle_line :: "env \<Rightarrow> json option \<Rightarrow> string \<Rightarrow> (exn + response) \<times> json option" where
  "handle_line ev bound line =
     (case json_loads ev line of
        Inl e \<Rightarrow> (handler bound e, bound)
      | Inr payload \<Rightarrow>
          (case try_body ev payload of
             Inl e \<Rightarrow> (handler (Some payload) e, Some payload)
           | Inr out \<Rightarrow> (Inr out, Some payload)))"

text \<open>
  The loop of line 223 over the lines of standard input: the responses printed, in
  order, and the exception that ended the process, if one escaped.
\<close>

fun serve :: "env \<Rightarrow> json option \<Rightarrow> string list \<Rightarrow> response list \<times> exn option" where
  "serve ev bound [] = ([], None)"
| "serve ev bound (l # ls) =
     (if strip l = [] then serve ev bound ls
      else (case handle_line ev bound (strip l) of
              (Inl err, bound') \<Rightarrow> ([], Some err)
            | (Inr out, bound') \<Rightarrow>
                (case serve ev bound' ls of (outs, r) \<Rightarrow> (out # outs, r))))"

definition main_loop :: "env \<Rightarrow> string list \<Rightarrow> response list \<times> exn option" where
  "main_loop ev lines = serve ev None lines"

subsection \<open>Auxiliary notions for the proofs\<close>

text \<open>A label is either absent or one of the eight of \<open>emotions\<close>.\<close>

definition valid_label :: "string option \<Rightarrow> bool" where
  "valid_label l = (case l of None \<Rightarrow> True | Some e \<Rightarrow> e \<in> set emotions)"

text \<open>The colour a detection with a valid label carries (lines 149--153).\<close>

definition label_color :: "string option \<Rightarrow> string" where
  "label_color l =
     (case l of
        None \<Rightarrow> ''#FFFFFF''
      | Some e \<Rightarrow> (case colors_lookup e of Inl err \<Rightarrow> [] | Inr c \<Rightarrow> bgr_to_rgb_hex c))"

text \<open>The detection lines 155--167 append for a clamped rectangle.\<close>

definition region_detection ::
  "frame \<Rightarrow> int \<times> int \<times> int \<times> int \<Rightarrow> string option \<Rightarrow> rat \<Rightarrow> detection" where
  "region_detection fr rect l c =
     (case rect of (x1, y1, x2, y2) \<Rightarrow>
        \<lparr>det_x1 = max 0 (min x1 (int (w_frame fr) - 1)),
         det_y1 = max 0 (min y1 (int (h_frame fr) - 1)),
         det_x2 = max 0 (min x2 (int (w_frame fr))),
         det_y2 = max 0 (min y2 (int (h_frame fr))),
         emotion = l, confidence = round4 c, color = label_color l, source = None\<rparr>)"

text \<open>The padded rectangle of lines 66--70.\<close>

definition padded :: "frame \<Rightarrow> int \<times> int \<times> int \<times> int \<Rightarrow> int \<times> int \<times> int \<times> int" where
  "padded fr face =
     (case face of (x, y, w, h) \<Rightarrow>
        (max 0 (int32 (x - 20)), max 0 (int32 (y - 20)),
         min (int (w_frame fr)) (int32 (int32 (x + w) + 20)),
         min (int (h_frame fr)) (int32 (int32 (y + h) + 20))))"

text \<open>A call of the model with the floor 0.05 (the region and fallback passes).\<close>

fun low_floor_call :: "call \<Rightarrow> bool" where
  "low_floor_call CallProposer = False"
| "low_floor_call (CallModel t q) = (q = 1 / 20)"

text \<open>
  What one iteration of the face loop does to the state: it calls the model with the low
  floor only, and appends at most one detection, counted under its label.
\<close>

definition face_step :: "frame \<Rightarrow> int \<times> int \<times> int \<times> int \<Rightarrow> loop_state \<Rightarrow> loop_state \<Rightarrow> bool" where
  "face_step fr rect st st' =
     ((\<exists>cs. calls st' = calls st @ cs \<and> list_all low_floor_call cs) \<and>
      ((results_output st' = results_output st \<and> emotion_counts st' = emotion_counts st) \<or>
       (\<exists>l c. valid_label l \<and>
          results_output st' = results_output st @ [region_detection fr rect l c] \<and>
          emotion_counts st' =
            count_detection (emotion_counts st) (region_detection fr rect l c))))"

text \<open>The labels of the detections that carry one, in order.\<close>

fun labels_of :: "detection list \<Rightarrow> string list" where
  "labels_of [] = []"
| "labels_of (d # ds) =
     (case emotion d of None \<Rightarrow> labels_of ds | Some e \<Rightarrow> e # labels_of ds)"

text \<open>The detection lines 190--203 append for a readable box with a class id in range.\<close>

definition direct_detection :: "frame \<Rightarrow> rat \<Rightarrow> int \<Rightarrow> rat \<times> rat \<times> rat \<times> rat \<Rightarrow> detection" where
  "direct_detection fr conf cls_id xyxy =
     (case xyxy of (x1d, y1d, x2d, y2d) \<Rightarrow>
        \<lparr>det_x1 = py_int (max 0 (min x1d (of_int (int (w_frame fr) - 1)))),
         det_y1 = py_int (max 0 (min y1d (of_int (int (h_frame fr) - 1)))),
         det_x2 = py_int (max 0 (min x2d (of_nat (w_frame fr)))),
         det_y2 = py_int (max 0 (min y2d (of_nat (h_frame fr)))),
         emotion = Some (emotions ! nat cls_id),
         confidence = round4 conf,
         color = label_color (Some (emotions ! nat cls_id)),
         source = Some ''direct''\<rparr>)"

text \<open>A detection of the direct pass comes from a box of the model's answer.\<close>

definition from_box :: "frame \<Rightarrow> box \<Rightarrow> detection \<Rightarrow> bool" where
  "from_box fr b d =
     (\<exists>conf cls_id xyxy. box_conf_cls b = Some (conf, cls_id) \<and>
        0 \<le> cls_id \<and> cls_id < int (length emotions) \<and>
        box_coords fr b = Inr xyxy \<and> d = direct_detection fr conf cls_id xyxy)"






subsection \<open>Concrete inputs\<close>

text \<open>
  A frame of 200 by 200 pixels, a readable box without coordinates, and environments
  whose proposer returns a fixed list of rectangles and whose model is a fixed function
  of what it is called on. \<open>ex_loads\<close> is \<^verbatim>\<open>json.loads\<close> on the texts used below:
  \<^verbatim>\<open>[]\<close> is the empty list, anything else here is not JSON.
\<close>

definition ex_frame :: frame where
  "ex_frame = \<lparr>h_frame = 200, w_frame = 200, pixels = []\<rparr>"

definition mk_box :: "rat \<Rightarrow> int \<Rightarrow> box" where
  "mk_box c k = \<lparr>box_conf_cls = Some (c, k), box_xyxy = None\<rparr>"

definition ex_loads :: "string \<Rightarrow> exn + json" where
  "ex_loads s =
     (if s = ''[]'' then Inr (JArr [])
      else Inl (Exn ''JSONDecodeError'' ''Expecting value: line 1 column 1 (char 0)''))"

definition ex_env ::
  "string \<Rightarrow> (int \<times> int \<times> int \<times> int) list \<Rightarrow> (target \<Rightarrow> rat \<Rightarrow> exn + yresult list)
     \<Rightarrow> env" where
  "ex_env m rects f =
     \<lparr>EMOTION_MODE = m, detectMultiScale = (\<lambda>fr. Inr rects), model = (\<lambda>fr. f),
      json_loads = ex_loads, b64decode = (\<lambda>s. Inr []), imdecode = (\<lambda>bs. Inr None)\<rparr>"

text \<open>
  A model that finds nothing on a crop and nothing at the low floor, and two boxes of
  class 3 on the whole frame at the floor 0.25.
\<close>

definition ex_direct_model :: "target \<Rightarrow> rat \<Rightarrow> exn + yresult list" where
  "ex_direct_model t c =
     (case t of
        Roi a b c' d \<Rightarrow> Inr []
      | Full_frame \<Rightarrow>
          if c = 1 / 4
          then Inr [\<lparr>boxes = Some [mk_box (2 / 5) 3, mk_box (1 / 2) 3], probs = None\<rparr>]
          else Inr [])"

text \<open>A model that returns four boxes: classes 6, 4, 4, 6.\<close>

definition ex_tie_model :: "target \<Rightarrow> rat \<Rightarrow> exn + yresult list" where
  "ex_tie_model t c =
     Inr [\<lparr>boxes = Some [mk_box (1 / 2) 6, mk_box (1 / 2) 4, mk_box (3 / 5) 4, mk_box (7 / 10) 6],
           probs = None\<rparr>]"

text \<open>A model that finds nothing anywhere.\<close>

definition ex_blind_model :: "target \<Rightarrow> rat \<Rightarrow> exn + yresult list" where
  "ex_blind_model t c = Inr []"

text \<open>A model that finds one box of class 4 at 0.8 wherever it looks.\<close>

definition ex_happy_model :: "target \<Rightarrow> rat \<Rightarrow> exn + yresult list" where
  "ex_happy_model t c = Inr [\<lparr>boxes = Some [mk_box (4 / 5) 4], probs = None\<rparr>]"

text \<open>A model that returns one box of class 4 reaching out of the frame on three sides.\<close>

definition ex_box_model :: "target \<Rightarrow> rat \<Rightarrow> exn + yresult list" where
  "ex_box_model t c =
     Inr [\<lparr>boxes = Some [\<lparr>box_conf_cls = Some (9 / 10, 4),
                           box_xyxy = Some [- 11 / 2, 51 / 5, 2507 / 10, 1209 / 10]\<rparr>],
           probs = None\<rparr>]"

text \<open>A model that returns one box of class 4 whose corners are not in order.\<close>

definition ex_inverted_model :: "target \<Rightarrow> rat \<Rightarrow> exn + yresult list" where
  "ex_inverted_model t c =
     Inr [\<lparr>boxes = Some [\<lparr>box_conf_cls = Some (9 / 10, 4),
                           box_xyxy = Some [150, 10, 50, 120]\<rparr>],
           probs = None\<rparr>]"





section \<open>Properties\<close>

subsection \<open>Evaluating the model on a concrete input\<close>

lemma int32_id: "- 2147483648 \<le> i \<Longrightarrow> i < 2147483648 \<Longrightarrow> int32 i = i"
  by (simp add: int32_def)

lemmas eval_defs = process_frame_def region_stage_def direct_stage_def direct_wanted_def
  process_face_def classify_face_def fallback_def emit_face_def
  new_debug_entry_def slice_len_def int32_id ex_env_def ex_frame_def mk_box_def
  final_counts_def dominant_of_def count_detection_def
  colors_lookup_def colors_bgr_def emotions_def Let_def mark_previous_def
  box_coords_def unpack4_def

lemmas loop_defs = main_loop_def ex_env_def ex_loads_def strip_def is_space_def
  handle_line_def handler_def try_body_def py_get_def no_attribute_def

subsection \<open>Labels come from the table\<close>

lemma valid_label_simps [simp]:
  "valid_label None" "valid_label (Some e) = (e \<in> set emotions)"
  by (simp_all add: valid_label_def)

lemma emotions_nth_mem:
  "0 \<le> k \<Longrightarrow> k < int (length emotions) \<Longrightarrow> emotions ! nat k \<in> set emotions"
  by (rule nth_mem) linarith

lemma emotions_nonempty: "e \<in> set emotions \<Longrightarrow> e \<noteq> []"
  by (auto simp: emotions_def)


lemma colors_lookup_total: "e \<in> set emotions \<Longrightarrow> \<exists>c. colors_lookup e = Inr c"
  by (auto simp: emotions_def colors_lookup_def colors_bgr_def)

lemma scan_boxes_valid:
  "valid_label (fst st) \<Longrightarrow> valid_label (fst (scan_boxes bs st))"
proof (induction bs st rule: scan_boxes.induct)
  case (1 st)
  then show ?case by simp
next
  case (2 b bs best_emotion best_conf n)
  then show ?case
    by (auto split: option.splits simp: emotions_nth_mem)
qed

lemma scan_probs_valid:
  "valid_label (fst st) \<Longrightarrow> valid_label (fst (fst (scan_probs p st)))"
  by (induction p st rule: scan_probs.induct)
     (auto split: option.splits simp: emotions_nth_mem Let_def)

lemma scan_results_valid:
  "valid_label (fst (fst st)) \<Longrightarrow> valid_label (fst (fst (scan_results rs st)))"
proof (induction rs st rule: scan_results.induct)
  case (1 st)
  then show ?case by simp
next
  case (2 r rs best_emotion best_conf n flag)
  show ?case
  proof (cases "boxes r")
    case None
    obtain e c hit where sp: "scan_probs (probs r) (best_emotion, best_conf) = ((e, c), hit)"
      by (metis surj_pair)
    have "valid_label e"
      using scan_probs_valid [of "(best_emotion, best_conf)" "probs r"] "2.prems" sp by simp
    then show ?thesis using 2 None sp by simp
  next
    case (Some bl)
    show ?thesis
    proof (cases bl)
      case Nil
      obtain e c hit where sp: "scan_probs (probs r) (best_emotion, best_conf) = ((e, c), hit)"
        by (metis surj_pair)
      have "valid_label e"
        using scan_probs_valid [of "(best_emotion, best_conf)" "probs r"] "2.prems" sp by simp
      then show ?thesis using 2 Some Nil sp by simp
    next
      case (Cons b bs)
      have "valid_label (fst (scan_boxes (b # bs) (best_emotion, best_conf, n)))"
        by (rule scan_boxes_valid) (use "2.prems" in simp)
      then show ?thesis using "2.IH"(3) Some Cons
        by (simp del: scan_boxes.simps)
    qed
  qed
qed

lemma scan_full_valid:
  "valid_label (fst st) \<Longrightarrow> valid_label (fst (scan_full rs st))"
  by (induction rs st rule: scan_full.induct)
     (auto split: option.splits simp: scan_boxes_valid)

lemma fallback_valid:
  "fallback ev fr bc dbg = (e, c, dbg') \<Longrightarrow> valid_label e"
proof -
  have "\<And>rs e' c' n'. scan_full rs (None, 0, 0) = (e', c', n') \<Longrightarrow> valid_label e'"
    using scan_full_valid [of "(None, 0, 0)"] by (metis fst_conv valid_label_simps(1))
  then show "fallback ev fr bc dbg = (e, c, dbg') \<Longrightarrow> valid_label e"
    by (auto simp: fallback_def Let_def split: sum.splits prod.splits if_splits)
qed


subsection \<open>The face loop, step by step\<close>

lemma emit_face_eq:
  assumes "valid_label l"
  shows "emit_face fr st rect l c dbg =
           Inr (st\<lparr>results_output := results_output st @ [region_detection fr rect l c],
                   emotion_counts := count_detection (emotion_counts st) (region_detection fr rect l c),
                   debug_entries := debug_entries st @ [FaceDebug dbg]\<rparr>)"
proof (cases l)
  case None
  then show ?thesis
    by (cases rect) (simp add: emit_face_def region_detection_def label_color_def count_detection_def)
next
  case (Some e)
  then have e: "e \<in> set emotions" using assms by simp
  then obtain col where col: "colors_lookup e = Inr col" using colors_lookup_total by blast
  have ne: "e \<noteq> []" using e by (rule emotions_nonempty)
  show ?thesis using Some col ne
    by (cases rect) (simp add: emit_face_def region_detection_def label_color_def count_detection_def)
qed

lemma classify_face_step:
  "\<exists>st'. classify_face ev fr st rect results = Inr st' \<and> face_step fr rect st st'"
proof -
  obtain be bc n hit where sr: "scan_results results ((None, 0, 0), False) = ((be, bc, n), hit)"
    by (metis surj_pair)
  have vbe: "valid_label be"
    using scan_results_valid [of "((None, 0, 0), False)" results] sr by simp
  define st1 where "st1 = (if hit then st\<lparr>debug_entries := mark_previous (debug_entries st)\<rparr> else st)"
  have st1: "results_output st1 = results_output st" "emotion_counts st1 = emotion_counts st"
    "calls st1 = calls st"
    by (simp_all add: st1_def)
  show ?thesis
  proof (cases "be = None")
    case True
    obtain fe fc fd where fb: "fallback ev fr bc (new_debug_entry rect n bc) = (fe, fc, fd)"
      by (metis surj_pair)
    have "valid_label fe" using fb by (rule fallback_valid)
    then show ?thesis using sr True fb st1
      by (auto simp: classify_face_def Let_def st1_def [symmetric] emit_face_eq face_step_def)
  next
    case False
    then show ?thesis using sr vbe st1
      by (auto simp: classify_face_def Let_def st1_def [symmetric] emit_face_eq face_step_def)
  qed
qed

lemma process_face_step:
  "\<exists>st'. process_face ev fr st face = Inr st' \<and> face_step fr (padded fr face) st st'"
proof -
  obtain x y w h where face: "face = (x, y, w, h)" by (metis surj_pair)
  define rect where "rect = padded fr face"
  define y1 y2 x1 x2 where "y1 = max 0 (int32 (y - 20))"
    and "y2 = min (int (h_frame fr)) (int32 (int32 (y + h) + 20))"
    and "x1 = max 0 (int32 (x - 20))"
    and "x2 = min (int (w_frame fr)) (int32 (int32 (x + w) + 20))"
  have rect: "rect = (x1, y1, x2, y2)"
    by (simp add: rect_def padded_def face y1_def y2_def x1_def x2_def)
  define st1 where "st1 = st\<lparr>calls := calls st @ [CallModel (Roi y1 y2 x1 x2) (1 / 20)]\<rparr>"
  have same: "face_step fr rect st st" "face_step fr rect st st1"
    by (simp_all add: face_step_def st1_def)
  have pf: "process_face ev fr st face =
      (if slice_len (h_frame fr) y1 y2 < 50 \<or> slice_len (w_frame fr) x1 x2 < 50 then Inr st
       else (case model ev fr (Roi y1 y2 x1 x2) (1 / 20) of
               Inl err \<Rightarrow> Inr st1
             | Inr results \<Rightarrow> classify_face ev fr st1 rect results))"
    unfolding process_face_def face Let_def st1_def rect y1_def y2_def x1_def x2_def
    by simp
  show ?thesis
  proof (cases "slice_len (h_frame fr) y1 y2 < 50 \<or> slice_len (w_frame fr) x1 x2 < 50")
    case True
    then show ?thesis using pf same rect_def by simp
  next
    case False
    show ?thesis
    proof (cases "model ev fr (Roi y1 y2 x1 x2) (1 / 20)")
      case (Inl err)
      then show ?thesis using pf False same rect_def by simp
    next
      case (Inr results)
      obtain st' where c: "classify_face ev fr st1 rect results = Inr st'"
        and fs: "face_step fr rect st1 st'"
        using classify_face_step by blast
      from fs obtain cs where cs: "calls st' = calls st1 @ cs" "list_all low_floor_call cs"
        unfolding face_step_def by blast
      have "calls st' = calls st @ (CallModel (Roi y1 y2 x1 x2) (1 / 20) # cs)"
        "list_all low_floor_call (CallModel (Roi y1 y2 x1 x2) (1 / 20) # cs)"
        using cs by (simp_all add: st1_def)
      then have "\<exists>cs. calls st' = calls st @ cs \<and> list_all low_floor_call cs"
        by blast
      then have "face_step fr rect st st'"
        using fs by (simp add: face_step_def st1_def)
      then show ?thesis using pf False Inr c rect_def by simp
    qed
  qed
qed

lemma face_loop_steps:
  "\<exists>st' ds. face_loop ev fr fs st = Inr st' \<and>
     results_output st' = results_output st @ ds \<and>
     emotion_counts st' = foldl count_detection (emotion_counts st) ds \<and>
     (\<exists>cs. calls st' = calls st @ cs \<and> list_all low_floor_call cs) \<and>
     (\<forall>d \<in> set ds. \<exists>face \<in> set fs. \<exists>l c. valid_label l \<and>
          d = region_detection fr (padded fr face) l c)"
proof (induction fs arbitrary: st)
  case Nil
  show ?case by simp
next
  case (Cons f fs)
  obtain st1 where p: "process_face ev fr st f = Inr st1"
    and step: "face_step fr (padded fr f) st st1"
    using process_face_step [of ev fr st f] by (elim exE conjE) (rule that)
  obtain st' ds where l: "face_loop ev fr fs st1 = Inr st'"
    and r: "results_output st' = results_output st1 @ ds"
    and c: "emotion_counts st' = foldl count_detection (emotion_counts st1) ds"
    and k: "\<exists>cs. calls st' = calls st1 @ cs \<and> list_all low_floor_call cs"
    and a: "\<forall>d \<in> set ds. \<exists>face \<in> set fs. \<exists>l c. valid_label l \<and>
          d = region_detection fr (padded fr face) l c"
    using Cons.IH [of st1]
    by - (erule exE, erule exE, (erule conjE)+, rule that; assumption)
  from step have "\<exists>cs. calls st1 = calls st @ cs \<and> list_all low_floor_call cs"
    unfolding face_step_def by blast
  with k have k': "\<exists>cs. calls st' = calls st @ cs \<and> list_all low_floor_call cs"
    by auto
  from step have "(results_output st1 = results_output st \<and> emotion_counts st1 = emotion_counts st) \<or>
       (\<exists>l c. valid_label l \<and>
          results_output st1 = results_output st @ [region_detection fr (padded fr f) l c] \<and>
          emotion_counts st1 =
            count_detection (emotion_counts st) (region_detection fr (padded fr f) l c))"
    unfolding face_step_def by blast
  moreover have fl: "face_loop ev fr (f # fs) st = Inr st'"
    using p l by simp
  moreover have a': "\<forall>d \<in> set ds. \<exists>face \<in> set (f # fs). \<exists>l c. valid_label l \<and>
          d = region_detection fr (padded fr face) l c"
  proof
    fix d assume "d \<in> set ds"
    with a obtain face l c where "face \<in> set fs" "valid_label l"
      "d = region_detection fr (padded fr face) l c" by blast
    then show "\<exists>face \<in> set (f # fs). \<exists>l c. valid_label l \<and>
          d = region_detection fr (padded fr face) l c"
      by (intro bexI [of _ face] exI [of _ l] exI [of _ c] conjI) simp_all
  qed
  ultimately show ?case
  proof (elim disjE conjE exE)
    assume "results_output st1 = results_output st" "emotion_counts st1 = emotion_counts st"
    then have "results_output st' = results_output st @ ds"
      "emotion_counts st' = foldl count_detection (emotion_counts st) ds"
      using r c by simp_all
    then show ?thesis
      by (rule_tac x = st' in exI, rule_tac x = ds in exI) (use fl k' a' in blast)
  next
    fix lb cf
    assume v: "valid_label lb"
      and r1: "results_output st1 = results_output st @ [region_detection fr (padded fr f) lb cf]"
      and c1: "emotion_counts st1 =
                 count_detection (emotion_counts st) (region_detection fr (padded fr f) lb cf)"
    let ?d = "region_detection fr (padded fr f) lb cf"
    have r': "results_output st' = results_output st @ (?d # ds)"
      and c': "emotion_counts st' = foldl count_detection (emotion_counts st) (?d # ds)"
      using r c r1 c1 by simp_all
    have "\<exists>face \<in> set (f # fs). \<exists>l c. valid_label l \<and>
            ?d = region_detection fr (padded fr face) l c"
      using v by (intro bexI [of _ f] exI [of _ lb] exI [of _ cf] conjI) simp_all
    then have a'': "\<forall>d \<in> set (?d # ds). \<exists>face \<in> set (f # fs). \<exists>l c. valid_label l \<and>
          d = region_detection fr (padded fr face) l c"
      using a' by simp
    show ?thesis
      by (rule_tac x = st' in exI, rule_tac x = "?d # ds" in exI) (use fl r' c' k' a'' in blast)
  qed
qed

subsection \<open>Counting labels\<close>

lemma keys_bump:
  "map fst (bump c k) = (if k \<in> set (map fst c) then map fst c else map fst c @ [k])"
  by (induction c k rule: bump.induct) auto

lemma map_of_bump:
  "map_of (bump c k) k' =
     (if k' = k then Some (case map_of c k of None \<Rightarrow> 1 | Some v \<Rightarrow> v + 1) else map_of c k')"
  by (induction c k rule: bump.induct) auto

lemma foldl_bump_snoc: "foldl bump c (ls @ [x]) = bump (foldl bump c ls) x"
  by simp

lemma keys_tally_set: "set (map fst (foldl bump [] ls)) = set ls"
proof (induction ls rule: rev_induct)
  case Nil
  show ?case by simp
next
  case (snoc x xs)
  show ?case
    unfolding foldl_bump_snoc keys_bump using snoc by auto
qed

lemma keys_tally_distinct: "distinct (map fst (foldl bump [] ls))"
proof (induction ls rule: rev_induct)
  case Nil
  show ?case by simp
next
  case (snoc x xs)
  show ?case
    unfolding foldl_bump_snoc keys_bump using snoc by auto
qed

lemma map_of_tally:
  "map_of (foldl bump [] ls) k = (if k \<in> set ls then Some (count_list ls k) else None)"
proof (induction ls rule: rev_induct)
  case Nil
  show ?case by simp
next
  case (snoc x xs)
  show ?case
    unfolding foldl_bump_snoc map_of_bump using snoc by auto
qed

lemma tally_order:
  "set (takeWhile (\<lambda>x. x \<noteq> l') (map fst (foldl bump [] ls))) =
   set (takeWhile (\<lambda>x. x \<noteq> l') ls)"
proof (induction ls rule: rev_induct)
  case Nil
  show ?case by simp
next
  case (snoc x xs)
  let ?K = "map fst (foldl bump [] xs)"
  have K: "set ?K = set xs" by (rule keys_tally_set)
  show ?case
  proof (cases "l' \<in> set xs")
    case True
    then have "takeWhile (\<lambda>x. x \<noteq> l') (xs @ [x]) = takeWhile (\<lambda>x. x \<noteq> l') xs"
      by (simp add: takeWhile_append1)
    moreover have "takeWhile (\<lambda>x. x \<noteq> l') (?K @ [x]) = takeWhile (\<lambda>x. x \<noteq> l') ?K"
      using True K by (simp add: takeWhile_append1)
    ultimately show ?thesis
      unfolding foldl_bump_snoc keys_bump using snoc by simp
  next
    case False
    then have a: "takeWhile (\<lambda>x. x \<noteq> l') (xs @ [x]) = xs @ takeWhile (\<lambda>x. x \<noteq> l') [x]"
      by (intro takeWhile_append2) auto
    have b: "takeWhile (\<lambda>x. x \<noteq> l') (?K @ [x]) = ?K @ takeWhile (\<lambda>x. x \<noteq> l') [x]"
      by (intro takeWhile_append2) (metis K False)
    have c: "takeWhile (\<lambda>x. x \<noteq> l') ?K = ?K"
      using False K by (auto simp: takeWhile_eq_all_conv)
    have kb: "map fst (foldl bump [] (xs @ [x])) = (if x \<in> set xs then ?K else ?K @ [x])"
      unfolding foldl_bump_snoc keys_bump K by simp
    show ?thesis
    proof (cases "x \<in> set xs")
      case True
      then have "x \<noteq> l'" using False by auto
      then have "set (takeWhile (\<lambda>x. x \<noteq> l') (xs @ [x])) = set xs"
        using a True by auto
      moreover have "set (takeWhile (\<lambda>x. x \<noteq> l') (map fst (foldl bump [] (xs @ [x])))) = set xs"
        using True by (simp only: kb if_True c K)
      ultimately show ?thesis by simp
    next
      case nin: False
      have "set (takeWhile (\<lambda>x. x \<noteq> l') (map fst (foldl bump [] (xs @ [x])))) =
            set ?K \<union> set (takeWhile (\<lambda>x. x \<noteq> l') [x])"
        using kb nin b by simp
      moreover have "set (takeWhile (\<lambda>x. x \<noteq> l') (xs @ [x])) =
            set xs \<union> set (takeWhile (\<lambda>x. x \<noteq> l') [x])"
        using a by simp
      ultimately show ?thesis using K by simp
    qed
  qed
qed

subsection \<open>The first item with the greatest count\<close>

lemma max_item_ge: "snd best \<le> snd (max_item best kvs)"
  by (induction kvs arbitrary: best) (auto intro: order_trans less_imp_le)

lemma max_item_upper: "p \<in> set kvs \<Longrightarrow> snd p \<le> snd (max_item best kvs)"
proof (induction kvs arbitrary: best)
  case Nil
  then show ?case by simp
next
  case (Cons kv kvs)
  show ?case
  proof (cases "p = kv")
    case True
    then show ?thesis
      using max_item_ge [of kv kvs] max_item_ge [of best kvs] by auto
  next
    case False
    then show ?thesis using Cons by auto
  qed
qed

text \<open>Every item before the chosen one has a strictly smaller count.\<close>

lemma max_item_first:
  "\<exists>pre post. best # kvs = pre @ max_item best kvs # post \<and>
     (\<forall>p \<in> set pre. snd p < snd (max_item best kvs))"
proof (induction kvs arbitrary: best)
  case Nil
  have "[best] = [] @ max_item best [] # []" by simp
  then show ?case by fastforce
next
  case (Cons kv kvs)
  show ?case
  proof (cases "snd best < snd kv")
    case True
    obtain pre post where s: "kv # kvs = pre @ max_item kv kvs # post"
      and f: "\<forall>p \<in> set pre. snd p < snd (max_item kv kvs)"
      using Cons.IH by blast
    have m: "max_item best (kv # kvs) = max_item kv kvs" using True by simp
    have "snd best < snd (max_item kv kvs)"
      using True max_item_ge [of kv kvs] by simp
    then have f': "\<forall>p \<in> set (best # pre). snd p < snd (max_item kv kvs)"
      using f by simp
    have e: "best # kv # kvs = (best # pre) @ max_item kv kvs # post"
      using s by (metis append_Cons)
    show ?thesis unfolding m using e f' by blast
  next
    case False
    obtain pre post where s: "best # kvs = pre @ max_item best kvs # post"
      and f: "\<forall>p \<in> set pre. snd p < snd (max_item best kvs)"
      using Cons.IH by blast
    have m: "max_item best (kv # kvs) = max_item best kvs" using False by simp
    show ?thesis
    proof (cases pre)
      case Nil
      then have "best = max_item best kvs" using s by auto
      then have e: "best # kv # kvs = [] @ max_item best kvs # (kv # kvs)" by simp
      have "\<forall>p \<in> set ([] :: (string \<times> nat) list). snd p < snd (max_item best kvs)" by simp
      then show ?thesis unfolding m using e by blast
    next
      case (Cons a pre')
      then have ab: "a = best" and t: "kvs = pre' @ max_item best kvs # post"
        using s by auto
      have e: "best # kv # kvs = (best # kv # pre') @ max_item best kvs # post"
        using t by (metis append_Cons)
      have "snd best < snd (max_item best kvs)" using f Cons ab by simp
      then have "snd kv < snd (max_item best kvs)" using False by simp
      then have f': "\<forall>p \<in> set (best # kv # pre'). snd p < snd (max_item best kvs)"
        using f Cons ab by simp
      show ?thesis unfolding m using e f' by blast
    qed
  qed
qed

subsection \<open>The direct pass\<close>

lemma pick_boxes_new:
  "pick_boxes fr bs picked = Inr picked' \<Longrightarrow>
     \<exists>new. picked' = picked @ new \<and> (\<forall>d \<in> set new. \<exists>b \<in> set bs. from_box fr b d)"
proof (induction bs arbitrary: picked)
  case Nil
  then show ?case by simp
next
  case (Cons b bs)
  show ?case
  proof (cases "box_conf_cls b")
    case None
    then have "pick_boxes fr bs picked = Inr picked'" using Cons.prems by simp
    from Cons.IH [OF this] show ?thesis by auto
  next
    case (Some cc)
    obtain conf cls_id where cc: "cc = (conf, cls_id)" by (cases cc)
    show ?thesis
    proof (cases "0 \<le> cls_id \<and> cls_id < int (length emotions)")
      case False
      then have "pick_boxes fr bs picked = Inr picked'" using Cons.prems Some cc by auto
      from Cons.IH [OF this] show ?thesis by auto
    next
      case True
      then have "emotions ! nat cls_id \<in> set emotions" by (simp add: emotions_nth_mem)
      then obtain col where col: "colors_lookup (emotions ! nat cls_id) = Inr col"
        using colors_lookup_total by blast
      obtain xyxy where xy: "box_coords fr b = Inr xyxy"
        using Cons.prems Some cc True by (cases "box_coords fr b") auto
      obtain x1d y1d x2d y2d where q: "xyxy = (x1d, y1d, x2d, y2d)" by (metis surj_pair)
      have rec: "pick_boxes fr bs (picked @ [direct_detection fr conf cls_id xyxy]) = Inr picked'"
        using Cons.prems Some cc True col xy q
        by (simp add: direct_detection_def label_color_def)
      from Cons.IH [OF rec] obtain new where
        n: "picked' = (picked @ [direct_detection fr conf cls_id xyxy]) @ new"
        and a: "\<forall>d \<in> set new. \<exists>b \<in> set bs. from_box fr b d" by blast
      have fb: "from_box fr b (direct_detection fr conf cls_id xyxy)"
        unfolding from_box_def using Some cc True xy by blast
      have "picked' = picked @ (direct_detection fr conf cls_id xyxy # new)" using n by simp
      moreover have "\<forall>d \<in> set (direct_detection fr conf cls_id xyxy # new).
                       \<exists>b' \<in> set (b # bs). from_box fr b' d"
        using a fb by auto
      ultimately show ?thesis by blast
    qed
  qed
qed

lemma pick_results_new:
  "pick_results fr rs picked = Inr picked' \<Longrightarrow>
     \<exists>new. picked' = picked @ new \<and>
       (\<forall>d \<in> set new. \<exists>r \<in> set rs. \<exists>bs. boxes r = Some bs \<and> (\<exists>b \<in> set bs. from_box fr b d))"
proof (induction rs arbitrary: picked)
  case Nil
  then show ?case by simp
next
  case (Cons r rs)
  show ?case
  proof (cases "boxes r")
    case None
    then have "pick_results fr rs picked = Inr picked'" using Cons.prems by simp
    from Cons.IH [OF this] show ?thesis by auto
  next
    case (Some bs)
    obtain mid where m: "pick_boxes fr bs picked = Inr mid"
      and rest: "pick_results fr rs mid = Inr picked'"
      using Cons.prems Some by (cases "pick_boxes fr bs picked") auto
    from pick_boxes_new [OF m] obtain n1 where
      n1: "mid = picked @ n1" and a1: "\<forall>d \<in> set n1. \<exists>b \<in> set bs. from_box fr b d" by blast
    from Cons.IH [OF rest] obtain n2 where
      n2: "picked' = mid @ n2"
      and a2: "\<forall>d \<in> set n2. \<exists>r \<in> set rs. \<exists>bs. boxes r = Some bs \<and> (\<exists>b \<in> set bs. from_box fr b d)"
      by blast
    have "picked' = picked @ (n1 @ n2)" using n1 n2 by simp
    moreover have "\<forall>d \<in> set (n1 @ n2). \<exists>r' \<in> set (r # rs). \<exists>bs. boxes r' = Some bs \<and>
                      (\<exists>b \<in> set bs. from_box fr b d)"
      using a1 a2 Some by auto
    ultimately show ?thesis by blast
  qed
qed

text \<open>What the direct pass leaves: the state it found, or its own detections alone.\<close>

lemma direct_stage_cases:
  "(\<not> direct_wanted ev st \<and> direct_stage ev fr st = st) \<or>
   (direct_wanted ev st \<and>
    calls (direct_stage ev fr st) = calls st @ [CallModel Full_frame (1 / 4)] \<and>
    emotion_counts (direct_stage ev fr st) = emotion_counts st \<and>
    (results_output (direct_stage ev fr st) = results_output st \<or>
     (\<exists>rs picked. model ev fr Full_frame (1 / 4) = Inr rs \<and>
        pick_results fr rs [] = Inr picked \<and> picked \<noteq> [] \<and>
        results_output (direct_stage ev fr st) = picked)))"
  by (auto simp: direct_stage_def Let_def split: sum.splits)

subsection \<open>The state after the face loop and after the direct pass\<close>

lemma region_detection_simps [simp]:
  "emotion (region_detection fr rect l c) = l"
  "source (region_detection fr rect l c) = None"
  "color (region_detection fr rect l c) = label_color l"
  by (cases rect; simp add: region_detection_def)+

lemma direct_detection_simps [simp]:
  "emotion (direct_detection fr conf k xy) = Some (emotions ! nat k)"
  "source (direct_detection fr conf k xy) = Some ''direct''"
  "color (direct_detection fr conf k xy) = label_color (Some (emotions ! nat k))"
  by (cases xy; simp add: direct_detection_def)+

lemma from_box_valid: "from_box fr b d \<Longrightarrow> valid_label (emotion d)"
  by (auto simp: from_box_def emotions_nth_mem)

lemma region_stage_facts:
  assumes "region_stage ev fr = Inr st"
  shows "emotion_counts st = foldl count_detection [] (results_output st)"
    and "\<forall>d \<in> set (results_output st). \<exists>face l c. valid_label l \<and>
           d = region_detection fr (padded fr face) l c"
    and "\<exists>cs. calls st =
           (if EMOTION_MODE ev = ''cascade'' \<or> EMOTION_MODE ev = ''hybrid''
            then [CallProposer] else []) @ cs \<and> list_all low_floor_call cs"
proof -
  define k where "k = (if EMOTION_MODE ev = ''cascade'' \<or> EMOTION_MODE ev = ''hybrid''
            then [CallProposer] else [])"
  define st0 where "st0 = \<lparr>results_output = [], emotion_counts = [], debug_entries = [],
                   calls = k\<rparr>"
  have "\<exists>fs. face_loop ev fr fs st0 = Inr st"
  proof (cases "EMOTION_MODE ev = ''cascade'' \<or> EMOTION_MODE ev = ''hybrid''")
    case True
    then show ?thesis
      using assms unfolding region_stage_def st0_def k_def
      by (cases "detectMultiScale ev fr") auto
  next
    case False
    then have "face_loop ev fr [] st0 = Inr st"
      using assms unfolding region_stage_def st0_def k_def by simp
    then show ?thesis by (rule exI)
  qed
  then obtain fs where fl: "face_loop ev fr fs st0 = Inr st" by blast
  obtain st' ds where "face_loop ev fr fs st0 = Inr st'"
    and r: "results_output st' = results_output st0 @ ds"
    and c: "emotion_counts st' = foldl count_detection (emotion_counts st0) ds"
    and t: "\<exists>cs. calls st' = calls st0 @ cs \<and> list_all low_floor_call cs"
    and a: "\<forall>d \<in> set ds. \<exists>face \<in> set fs. \<exists>l c. valid_label l \<and>
          d = region_detection fr (padded fr face) l c"
    using face_loop_steps [of ev fr fs st0] by blast
  then have eq: "st' = st" using fl by simp
  show "emotion_counts st = foldl count_detection [] (results_output st)"
    using r c eq by (simp add: st0_def)
  show "\<forall>d \<in> set (results_output st). \<exists>face l c. valid_label l \<and>
           d = region_detection fr (padded fr face) l c"
  proof -
    have "results_output st = ds" using r eq by (simp add: st0_def)
    then show ?thesis using a by blast
  qed
  show "\<exists>cs. calls st =
           (if EMOTION_MODE ev = ''cascade'' \<or> EMOTION_MODE ev = ''hybrid''
            then [CallProposer] else []) @ cs \<and> list_all low_floor_call cs"
    using t eq by (simp add: st0_def k_def)
qed

lemma count_detection_unlabelled:
  "list_all (\<lambda>r. emotion r = None) ds \<Longrightarrow> foldl count_detection c ds = c"
  by (induction ds arbitrary: c) (auto simp: count_detection_def)

lemma count_detection_labels:
  "\<forall>d \<in> set ds. valid_label (emotion d) \<Longrightarrow>
     foldl count_detection c ds = foldl bump c (labels_of ds)"
proof (induction ds arbitrary: c)
  case Nil
  show ?case by simp
next
  case (Cons d ds)
  then show ?case
    by (cases "emotion d") (auto simp: count_detection_def dest: emotions_nonempty)
qed

text \<open>
  The detections returned are those of the face loop or those of the direct pass, every
  label is one of the table, and the dominant emotion is computed from the labels of the
  detections returned.
\<close>

lemma process_frame_facts:
  assumes "process_frame ev fr = Inr out"
  shows "\<forall>d \<in> set (faces out). valid_label (emotion d)"
    and "dominant out = dominant_of (foldl bump [] (labels_of (faces out)))"
proof -
  obtain st where rs: "region_stage ev fr = Inr st"
    using assms by (cases "region_stage ev fr") (auto simp: process_frame_def)
  define st2 where "st2 = direct_stage ev fr st"
  have out: "faces out = results_output st2" "dominant out = dominant_of (final_counts st2)"
    using assms rs by (auto simp: process_frame_def st2_def Let_def)
  note rf = region_stage_facts [OF rs]
  have v1: "\<forall>d \<in> set (results_output st). valid_label (emotion d)"
    using rf(2) by fastforce
  have both: "(\<forall>d \<in> set (results_output st2). valid_label (emotion d)) \<and>
              final_counts st2 = foldl count_detection [] (results_output st2)"
    using direct_stage_cases [of ev st fr]
  proof (elim disjE conjE exE)
    assume "direct_stage ev fr st = st"
    then have "st2 = st" by (simp add: st2_def)
    then show ?thesis using v1 rf(1) by (auto simp: final_counts_def)
  next
    assume w: "direct_wanted ev st"
      and c: "emotion_counts (direct_stage ev fr st) = emotion_counts st"
      and r: "results_output (direct_stage ev fr st) = results_output st"
    have "emotion_counts st = []"
      using w rf(1) count_detection_unlabelled [of "results_output st" "[]"]
      by (auto simp: direct_wanted_def)
    then have "emotion_counts st2 = []" using c by (simp add: st2_def)
    then show ?thesis using v1 r by (simp add: final_counts_def st2_def)
  next
    fix rs' picked
    assume w: "direct_wanted ev st"
      and c: "emotion_counts (direct_stage ev fr st) = emotion_counts st"
      and p: "pick_results fr rs' [] = Inr picked"
      and r: "results_output (direct_stage ev fr st) = picked"
    have "emotion_counts st = []"
      using w rf(1) count_detection_unlabelled [of "results_output st" "[]"]
      by (auto simp: direct_wanted_def)
    then have e: "emotion_counts st2 = []" using c by (simp add: st2_def)
    have "\<forall>d \<in> set picked. valid_label (emotion d)"
      using pick_results_new [OF p] from_box_valid by fastforce
    then show ?thesis using e r by (simp add: final_counts_def st2_def)
  qed
  show "\<forall>d \<in> set (faces out). valid_label (emotion d)"
    using both out by simp
  show "dominant out = dominant_of (foldl bump [] (labels_of (faces out)))"
    using both out count_detection_labels [of "results_output st2" "[]"] by simp
qed

subsection \<open>The dominant emotion of a list of labels\<close>

lemma dominant_of_no_labels: "dominant_of (foldl bump [] []) = None"
  by (simp add: dominant_of_def)

lemma dominant_of_tally:
  assumes "ls \<noteq> []"
  shows "\<exists>l. dominant_of (foldl bump [] ls) = Some l \<and> l \<in> set ls \<and>
           (\<forall>l'. count_list ls l' \<le> count_list ls l) \<and>
           (\<forall>l'. l' \<noteq> l \<and> count_list ls l' = count_list ls l \<longrightarrow>
                  l \<in> set (takeWhile (\<lambda>x. x \<noteq> l') ls))"
proof -
  define T where "T = foldl bump [] ls"
  have keys: "set (map fst T) = set ls" and dist: "distinct (map fst T)"
    and mo: "\<And>k. map_of T k = (if k \<in> set ls then Some (count_list ls k) else None)"
    unfolding T_def by (rule keys_tally_set, rule keys_tally_distinct, rule map_of_tally)
  have "T \<noteq> []" using keys assms by auto
  then obtain kv kvs where T: "T = kv # kvs" by (cases T) auto
  define m where "m = max_item kv kvs"
  obtain pre post where sp: "kv # kvs = pre @ m # post"
    and lt: "\<forall>p \<in> set pre. snd p < snd m"
    using max_item_first [of kv kvs] unfolding m_def by blast
  have m_in: "m \<in> set T" using sp T by simp
  have ub: "\<And>p. p \<in> set T \<Longrightarrow> snd p \<le> snd m"
    using max_item_upper [of _ kvs kv] max_item_ge [of kv kvs] unfolding T m_def by auto
  have pair: "\<And>p. p \<in> set T \<Longrightarrow> fst p \<in> set ls \<and> snd p = count_list ls (fst p)"
  proof -
    fix p assume "p \<in> set T"
    then have "map_of T (fst p) = Some (snd p)" using dist by simp
    then show "fst p \<in> set ls \<and> snd p = count_list ls (fst p)"
      unfolding mo by (auto split: if_splits)
  qed
  have mem: "\<And>k. k \<in> set ls \<Longrightarrow> (k, count_list ls k) \<in> set T"
  proof -
    fix k assume "k \<in> set ls"
    then have "map_of T k = Some (count_list ls k)" by (simp add: mo)
    then show "(k, count_list ls k) \<in> set T" by (rule map_of_SomeD)
  qed
  define l where "l = fst m"
  have l_in: "l \<in> set ls" and cm: "snd m = count_list ls l"
    using pair [OF m_in] by (simp_all add: l_def)
  have dom: "dominant_of (foldl bump [] ls) = Some l"
    unfolding T_def [symmetric] T dominant_of_def l_def m_def by simp
  have maxc: "\<forall>l'. count_list ls l' \<le> count_list ls l"
  proof
    fix l'
    show "count_list ls l' \<le> count_list ls l"
    proof (cases "l' \<in> set ls")
      case True
      from ub [OF mem [OF True]] show ?thesis using cm by simp
    next
      case False
      then show ?thesis by (simp add: count_list_0_iff)
    qed
  qed
  have tie: "\<forall>l'. l' \<noteq> l \<and> count_list ls l' = count_list ls l \<longrightarrow>
                  l \<in> set (takeWhile (\<lambda>x. x \<noteq> l') ls)"
  proof (intro allI impI)
    fix l' assume h: "l' \<noteq> l \<and> count_list ls l' = count_list ls l"
    have "count_list ls l \<noteq> 0" using l_in by (simp add: count_list_0_iff)
    then have l'_in: "l' \<in> set ls" using h by (metis count_list_0_iff)
    have np: "l' \<notin> set (map fst pre)"
    proof
      assume "l' \<in> set (map fst pre)"
      then obtain p where p: "p \<in> set pre" "fst p = l'" by auto
      then have "p \<in> set T" using sp T by simp
      then have "snd p = count_list ls l'" using pair p by auto
      then show False using lt p h cm by auto
    qed
    have e: "map fst T = map fst pre @ (l # map fst post)"
      using sp T by (simp add: l_def)
    have "takeWhile (\<lambda>x. x \<noteq> l') (map fst pre @ (l # map fst post)) =
               map fst pre @ takeWhile (\<lambda>x. x \<noteq> l') (l # map fst post)"
      by (rule takeWhile_append2) (use np in blast)
    moreover have "l \<in> set (takeWhile (\<lambda>x. x \<noteq> l') (l # map fst post))"
      using h by auto
    ultimately have "l \<in> set (takeWhile (\<lambda>x. x \<noteq> l') (map fst T))"
      unfolding e by simp
    then show "l \<in> set (takeWhile (\<lambda>x. x \<noteq> l') ls)"
      unfolding T_def tally_order .
  qed
  show ?thesis using dom l_in maxc tie by blast
qed

lemma labels_of_set: "l \<in> set (labels_of ds) \<longleftrightarrow> (\<exists>d \<in> set ds. emotion d = Some l)"
  by (induction ds) (auto split: option.splits)

lemma labels_of_empty: "labels_of ds = [] \<longleftrightarrow> (\<forall>d \<in> set ds. emotion d = None)"
  by (induction ds) (auto split: option.splits)

subsection \<open>The dominant emotion is a label of the detections returned\<close>

text \<open>
  Claim C2: when the dominant emotion is present, a detection returned carries that
  label; when no detection is returned or none carries a label, the dominant emotion is
  absent. This holds of every frame processed, the direct pass included.
\<close>

theorem dominant_consistent:
  assumes "process_frame ev fr = Inr out"
  shows "(\<forall>l. dominant out = Some l \<longrightarrow> (\<exists>d \<in> set (faces out). emotion d = Some l)) \<and>
         (faces out = [] \<or> (\<forall>d \<in> set (faces out). emotion d = None) \<longrightarrow>
            dominant out = None)"
proof -
  have dom: "dominant out = dominant_of (foldl bump [] (labels_of (faces out)))"
    using assms by (rule process_frame_facts(2))
  show ?thesis
  proof (cases "labels_of (faces out) = []")
    case True
    then have "dominant out = None" using dom by (simp add: dominant_of_def)
    then show ?thesis by simp
  next
    case False
    from dominant_of_tally [OF False] obtain l where
      l: "dominant out = Some l" "l \<in> set (labels_of (faces out))"
      using dom by auto
    have "\<exists>d \<in> set (faces out). emotion d = Some l"
      using l(2) by (simp add: labels_of_set)
    moreover have "\<not> (faces out = [] \<or> (\<forall>d \<in> set (faces out). emotion d = None))"
      using False labels_of_empty [of "faces out"] by auto
    ultimately show ?thesis using l(1) by auto
  qed
qed

theorem dominant_consistent_witness:
  "\<exists>out. process_frame (ex_env ''hybrid'' [(10, 10, 100, 100)] ex_direct_model) ex_frame = Inr out \<and>
     dominant out = Some ''Fear'' \<and> (\<exists>d \<in> set (faces out). emotion d = Some ''Fear'')"
proof -
  let ?r = "process_frame (ex_env ''hybrid'' [(10, 10, 100, 100)] ex_direct_model) ex_frame"
  have "case ?r of Inl e \<Rightarrow> False | Inr out \<Rightarrow> dominant out = Some ''Fear''"
    by (simp add: eval_defs ex_direct_model_def)
  then obtain out where e: "?r = Inr out" and d: "dominant out = Some ''Fear''"
    by (cases ?r) auto
  from dominant_consistent [OF e] d have "\<exists>d \<in> set (faces out). emotion d = Some ''Fear''"
    by blast
  with e d show ?thesis by blast
qed

subsection \<open>Majority vote, first label first\<close>

text \<open>
  Claim C9: when some detection returned carries a label, the dominant emotion is a label
  of the greatest count among the labelled detections, and any other label of the same
  count occurs for the first time after it.
\<close>

theorem dominant_is_first_majority:
  assumes "process_frame ev fr = Inr out" and "labels_of (faces out) \<noteq> []"
  shows "\<exists>l. dominant out = Some l \<and> l \<in> set (labels_of (faces out)) \<and>
           (\<forall>l'. count_list (labels_of (faces out)) l' \<le> count_list (labels_of (faces out)) l) \<and>
           (\<forall>l'. l' \<noteq> l \<and>
                  count_list (labels_of (faces out)) l' = count_list (labels_of (faces out)) l \<longrightarrow>
                  l \<in> set (takeWhile (\<lambda>x. x \<noteq> l') (labels_of (faces out))))"
  using dominant_of_tally [OF assms(2)] process_frame_facts(2) [OF assms(1)] by simp

theorem dominant_is_first_majority_witness:
  "\<exists>out. process_frame (ex_env ''direct'' [] ex_tie_model) ex_frame = Inr out \<and>
     labels_of (faces out) = [''Sad'', ''Happy'', ''Happy'', ''Sad''] \<and>
     dominant out = Some ''Sad''"
proof -
  let ?r = "process_frame (ex_env ''direct'' [] ex_tie_model) ex_frame"
  have "case ?r of Inl e \<Rightarrow> False
        | Inr out \<Rightarrow> labels_of (faces out) = [''Sad'', ''Happy'', ''Happy'', ''Sad'']"
    by (simp add: eval_defs ex_tie_model_def)
  then obtain out where e: "?r = Inr out"
    and ls: "labels_of (faces out) = [''Sad'', ''Happy'', ''Happy'', ''Sad'']"
    by (cases ?r) auto
  have ne: "labels_of (faces out) \<noteq> []" using ls by simp
  from dominant_is_first_majority [OF e ne] obtain l where
    d: "dominant out = Some l" and m: "l \<in> set (labels_of (faces out))"
    and t: "\<forall>l'. l' \<noteq> l \<and>
                  count_list (labels_of (faces out)) l' = count_list (labels_of (faces out)) l \<longrightarrow>
                  l \<in> set (takeWhile (\<lambda>x. x \<noteq> l') (labels_of (faces out)))"
    by blast
  have "l = ''Sad''"
  proof (rule ccontr)
    assume n: "l \<noteq> ''Sad''"
    then have h: "l = ''Happy''" using m ls by auto
    from t [rule_format, of "''Sad''"] show False unfolding ls h by simp
  qed
  then show ?thesis using e ls d by blast
qed

subsection \<open>Where a detection comes from\<close>

lemma region_stage_origin:
  assumes "region_stage ev fr = Inr st" and "d \<in> set (results_output st)"
  shows "(EMOTION_MODE ev = ''cascade'' \<or> EMOTION_MODE ev = ''hybrid'') \<and>
         (\<exists>found face l c. detectMultiScale ev fr = Inr found \<and> face \<in> set found \<and>
            valid_label l \<and> d = region_detection fr (padded fr face) l c)"
proof (cases "EMOTION_MODE ev = ''cascade'' \<or> EMOTION_MODE ev = ''hybrid''")
  case True
  define st0 where "st0 = \<lparr>results_output = [], emotion_counts = [], debug_entries = [],
                   calls = [CallProposer]\<rparr>"
  obtain found where f: "detectMultiScale ev fr = Inr found"
    and fl: "face_loop ev fr found st0 = Inr st"
    using assms(1) True unfolding region_stage_def st0_def
    by (cases "detectMultiScale ev fr") auto
  obtain st' ds where "face_loop ev fr found st0 = Inr st'"
    and r: "results_output st' = results_output st0 @ ds"
    and a: "\<forall>d \<in> set ds. \<exists>face \<in> set found. \<exists>l c. valid_label l \<and>
          d = region_detection fr (padded fr face) l c"
    using face_loop_steps [of ev fr found st0]
    by - (erule exE, erule exE, (erule conjE)+, rule that; assumption)
  then have "results_output st = ds" using fl by (simp add: st0_def)
  then obtain face l c where "face \<in> set found" "valid_label l"
    "d = region_detection fr (padded fr face) l c"
    using a assms(2) by blast
  then show ?thesis using True f by blast
next
  case False
  then have "st = \<lparr>results_output = [], emotion_counts = [], debug_entries = [], calls = []\<rparr>"
    using assms(1) unfolding region_stage_def by simp
  then show ?thesis using assms(2) by simp
qed

text \<open>
  What \<^verbatim>\<open>process_frame\<close> returns, in terms of the state after the face loop: either
  the direct pass does not run and the detections are those of the face loop, or it runs
  (one more call of the model, on the whole frame, with the floor 0.25) and the
  detections are those of the face loop or, when it picked any, the picked ones alone.
\<close>

lemma process_frame_shape:
  assumes "process_frame ev fr = Inr out"
  shows "\<exists>st. region_stage ev fr = Inr st \<and>
     ((\<not> direct_wanted ev st \<and> faces out = results_output st \<and> out_calls out = calls st) \<or>
      (direct_wanted ev st \<and> out_calls out = calls st @ [CallModel Full_frame (1 / 4)] \<and>
       (faces out = results_output st \<or>
        (\<exists>rs picked. model ev fr Full_frame (1 / 4) = Inr rs \<and>
           pick_results fr rs [] = Inr picked \<and> picked \<noteq> [] \<and> faces out = picked))))"
proof -
  obtain st where rs: "region_stage ev fr = Inr st"
    using assms by (cases "region_stage ev fr") (auto simp: process_frame_def)
  have out: "faces out = results_output (direct_stage ev fr st)"
    "out_calls out = calls (direct_stage ev fr st)"
    using assms rs by (auto simp: process_frame_def Let_def)
  show ?thesis
    by (rule exI [of _ st]) (use direct_stage_cases [of ev st fr] rs out in auto)
qed

lemma process_frame_origin:
  assumes "process_frame ev fr = Inr out" and "d \<in> set (faces out)"
  shows "((EMOTION_MODE ev = ''cascade'' \<or> EMOTION_MODE ev = ''hybrid'') \<and>
          (\<exists>found face l c. detectMultiScale ev fr = Inr found \<and> face \<in> set found \<and>
             valid_label l \<and> d = region_detection fr (padded fr face) l c)) \<or>
         ((EMOTION_MODE ev = ''direct'' \<or> EMOTION_MODE ev = ''hybrid'') \<and>
          (\<exists>rs r bs b. model ev fr Full_frame (1 / 4) = Inr rs \<and> r \<in> set rs \<and>
             boxes r = Some bs \<and> b \<in> set bs \<and> from_box fr b d))"
proof -
  from process_frame_shape [OF assms(1)] obtain st where rs: "region_stage ev fr = Inr st"
    and sh: "(\<not> direct_wanted ev st \<and> faces out = results_output st \<and> out_calls out = calls st) \<or>
      (direct_wanted ev st \<and> out_calls out = calls st @ [CallModel Full_frame (1 / 4)] \<and>
       (faces out = results_output st \<or>
        (\<exists>rs picked. model ev fr Full_frame (1 / 4) = Inr rs \<and>
           pick_results fr rs [] = Inr picked \<and> picked \<noteq> [] \<and> faces out = picked)))"
    by blast
  have "faces out = results_output st \<or>
        (direct_wanted ev st \<and> (\<exists>rs picked. model ev fr Full_frame (1 / 4) = Inr rs \<and>
           pick_results fr rs [] = Inr picked \<and> faces out = picked))"
    using sh by blast
  then show ?thesis
  proof (elim disjE conjE exE)
    assume "faces out = results_output st"
    then have "d \<in> set (results_output st)" using assms(2) by simp
    from region_stage_origin [OF rs this] show ?thesis by blast
  next
    fix rs' picked
    assume w: "direct_wanted ev st" and m: "model ev fr Full_frame (1 / 4) = Inr rs'"
      and p: "pick_results fr rs' [] = Inr picked" and f: "faces out = picked"
    from pick_results_new [OF p] have
      "\<forall>d \<in> set picked. \<exists>r \<in> set rs'. \<exists>bs. boxes r = Some bs \<and> (\<exists>b \<in> set bs. from_box fr b d)"
      by simp
    then obtain r bs b where "r \<in> set rs'" "boxes r = Some bs" "b \<in> set bs" "from_box fr b d"
      using assms(2) f by blast
    moreover have "EMOTION_MODE ev = ''direct'' \<or> EMOTION_MODE ev = ''hybrid''"
      using w by (simp add: direct_wanted_def)
    ultimately show ?thesis using m by blast
  qed
qed

subsection \<open>The colour of an unlabelled detection\<close>

lemma label_color_neutral: "label_color (Some ''Neutral'') = ''#FFFFFF''"
  by (simp add: label_color_def colors_lookup_def colors_bgr_def fmt_02X_def hex_digit_def)

text \<open>
  Claim C10: a detection returned without a label has the colour \<^verbatim>\<open>#FFFFFF\<close>, and so
  has a detection labelled Neutral, whose entry of \<^verbatim>\<open>colors_bgr\<close> formats to the same
  string.
\<close>

theorem unlabelled_has_neutral_colour:
  assumes "process_frame ev fr = Inr out" and "d \<in> set (faces out)"
    and "emotion d = None \<or> emotion d = Some ''Neutral''"
  shows "color d = ''#FFFFFF'' \<and>
         map_option bgr_to_rgb_hex (map_of colors_bgr ''Neutral'') = Some ''#FFFFFF''"
proof -
  have c: "color d = label_color (emotion d)"
    using process_frame_origin [OF assms(1,2)] by (auto simp: from_box_def)
  have "label_color (emotion d) = ''#FFFFFF''"
    using assms(3) by (auto simp: label_color_neutral) (simp add: label_color_def)
  moreover have "map_option bgr_to_rgb_hex (map_of colors_bgr ''Neutral'') = Some ''#FFFFFF''"
    by (simp add: colors_bgr_def fmt_02X_def hex_digit_def)
  ultimately show ?thesis using c by simp
qed

theorem unlabelled_has_neutral_colour_witness:
  "\<exists>out d. process_frame (ex_env ''cascade'' [(10, 10, 100, 100)] ex_blind_model) ex_frame = Inr out \<and>
     d \<in> set (faces out) \<and> emotion d = None \<and> color d = ''#FFFFFF''"
proof -
  let ?r = "process_frame (ex_env ''cascade'' [(10, 10, 100, 100)] ex_blind_model) ex_frame"
  have "case ?r of Inl e \<Rightarrow> False
        | Inr out \<Rightarrow> (case faces out of [] \<Rightarrow> False | d # ds \<Rightarrow> emotion d = None)"
    by (simp add: eval_defs ex_blind_model_def)
  then obtain out where e: "?r = Inr out"
    and f: "case faces out of [] \<Rightarrow> False | d # ds \<Rightarrow> emotion d = None"
    by (cases ?r) auto
  then obtain d ds where "faces out = d # ds" and n: "emotion d = None"
    by (cases "faces out") auto
  then have m: "d \<in> set (faces out)" by simp
  from unlabelled_has_neutral_colour [OF e m] n have "color d = ''#FFFFFF''" by blast
  with e m n show ?thesis by blast
qed

subsection \<open>Which mode runs which pass\<close>

lemma region_stage_direct_mode:
  "EMOTION_MODE ev = ''direct'' \<Longrightarrow>
     region_stage ev fr =
       Inr \<lparr>results_output = [], emotion_counts = [], debug_entries = [], calls = []\<rparr>"
  by (simp add: region_stage_def)

lemma direct_stage_proposer:
  "direct_stage (ev\<lparr>detectMultiScale := p\<rparr>) fr st = direct_stage ev fr st"
  by (simp add: direct_stage_def direct_wanted_def)

text \<open>
  Claim C8: in the mode \<^verbatim>\<open>cascade\<close> no detection returned has the source
  \<^verbatim>\<open>direct\<close>; in the mode \<^verbatim>\<open>direct\<close> the proposer is not called, and what is
  returned does not depend on it.
\<close>

theorem mode_gating:
  assumes "process_frame ev fr = Inr out"
  shows "(EMOTION_MODE ev = ''cascade'' \<longrightarrow>
            (\<forall>d \<in> set (faces out). source d \<noteq> Some ''direct'')) \<and>
         (EMOTION_MODE ev = ''direct'' \<longrightarrow>
            CallProposer \<notin> set (out_calls out) \<and>
            (\<forall>p. process_frame (ev\<lparr>detectMultiScale := p\<rparr>) fr = process_frame ev fr))"
proof (intro conjI impI ballI allI)
  fix d assume c: "EMOTION_MODE ev = ''cascade''" and d: "d \<in> set (faces out)"
  from process_frame_origin [OF assms d] c
  obtain face l cf where "d = region_detection fr (padded fr face) l cf" by auto
  then show "source d \<noteq> Some ''direct''" by simp
next
  assume m: "EMOTION_MODE ev = ''direct''"
  from process_frame_shape [OF assms] obtain st where rs: "region_stage ev fr = Inr st"
    and oc: "out_calls out = calls st \<or> out_calls out = calls st @ [CallModel Full_frame (1 / 4)]"
    by blast
  have "calls st = []" using rs m by (auto simp: region_stage_direct_mode)
  then show "CallProposer \<notin> set (out_calls out)" using oc by auto
next
  fix p assume m: "EMOTION_MODE ev = ''direct''"
  show "process_frame (ev\<lparr>detectMultiScale := p\<rparr>) fr = process_frame ev fr"
    using m by (simp add: process_frame_def region_stage_direct_mode direct_stage_proposer)
qed

theorem mode_gating_witness:
  "(\<exists>out. process_frame (ex_env ''cascade'' [(10, 10, 100, 100)] ex_happy_model) ex_frame = Inr out \<and>
      faces out \<noteq> [] \<and> list_all (\<lambda>d. source d \<noteq> Some ''direct'') (faces out)) \<and>
   (\<exists>out. process_frame (ex_env ''direct'' [(10, 10, 100, 100)] ex_happy_model) ex_frame = Inr out \<and>
      faces out \<noteq> [] \<and> CallProposer \<notin> set (out_calls out))"
proof -
  let ?c = "process_frame (ex_env ''cascade'' [(10, 10, 100, 100)] ex_happy_model) ex_frame"
  let ?d = "process_frame (ex_env ''direct'' [(10, 10, 100, 100)] ex_happy_model) ex_frame"
  have "case ?c of Inl e \<Rightarrow> False | Inr out \<Rightarrow> faces out \<noteq> []"
    by (simp add: eval_defs ex_happy_model_def)
  then obtain oc where c: "?c = Inr oc" and nc: "faces oc \<noteq> []"
    by (cases ?c) auto
  have "case ?d of Inl e \<Rightarrow> False | Inr out \<Rightarrow> faces out \<noteq> []"
    by (simp add: eval_defs ex_happy_model_def)
  then obtain od where d: "?d = Inr od" and nd: "faces od \<noteq> []"
    by (cases ?d) auto
  have mc: "EMOTION_MODE (ex_env ''cascade'' [(10, 10, 100, 100)] ex_happy_model) = ''cascade''"
    and md: "EMOTION_MODE (ex_env ''direct'' [(10, 10, 100, 100)] ex_happy_model) = ''direct''"
    by (simp_all add: ex_env_def)
  from mode_gating [OF c] mc have "list_all (\<lambda>d. source d \<noteq> Some ''direct'') (faces oc)"
    by (simp add: list_all_iff)
  moreover from mode_gating [OF d] md have "CallProposer \<notin> set (out_calls od)"
    by blast
  ultimately show ?thesis using c d nc nd by blast
qed

subsection \<open>When the direct pass runs, and what it replaces\<close>

lemma direct_stage_replaces:
  assumes "direct_wanted ev st" and "model ev fr Full_frame (1 / 4) = Inr rs"
    and "pick_results fr rs [] = Inr picked" and "picked \<noteq> []"
  shows "results_output (direct_stage ev fr st) = picked"
  using assms by (simp add: direct_stage_def)

lemma low_floor_not_direct:
  "list_all low_floor_call cs \<Longrightarrow> CallModel Full_frame (1 / 4) \<notin> set cs"
  by (induction cs) auto

text \<open>
  Claim C7: the direct pass (the call of the model on the whole frame with the floor
  0.25) runs only in the modes \<^verbatim>\<open>direct\<close> and \<^verbatim>\<open>hybrid\<close> and only when no
  detection of the face loop carries a label (in particular when there is none); and
  when it picks at least one detection, the detections returned are exactly the picked
  ones.
\<close>

theorem direct_pass_gate_and_replacement:
  assumes "process_frame ev fr = Inr out"
  shows "\<exists>st. region_stage ev fr = Inr st \<and>
     (CallModel Full_frame (1 / 4) \<in> set (out_calls out) \<longrightarrow>
        (EMOTION_MODE ev = ''direct'' \<or> EMOTION_MODE ev = ''hybrid'') \<and>
        (\<forall>d \<in> set (results_output st). emotion d = None)) \<and>
     (\<forall>rs picked.
        CallModel Full_frame (1 / 4) \<in> set (out_calls out) \<and>
        model ev fr Full_frame (1 / 4) = Inr rs \<and>
        pick_results fr rs [] = Inr picked \<and> picked \<noteq> [] \<longrightarrow>
        faces out = picked)"
proof -
  obtain st where rs: "region_stage ev fr = Inr st"
    using assms by (cases "region_stage ev fr") (auto simp: process_frame_def)
  have out: "faces out = results_output (direct_stage ev fr st)"
    "out_calls out = calls (direct_stage ev fr st)"
    using assms rs by (auto simp: process_frame_def Let_def)
  from region_stage_facts(3) [OF rs] obtain cs where
    cs: "calls st = (if EMOTION_MODE ev = ''cascade'' \<or> EMOTION_MODE ev = ''hybrid''
            then [CallProposer] else []) @ cs" and lf: "list_all low_floor_call cs"
    by blast
  have nd: "CallModel Full_frame (1 / 4) \<notin> set (calls st)"
    using low_floor_not_direct [OF lf] cs by auto
  have ran: "CallModel Full_frame (1 / 4) \<in> set (out_calls out) \<Longrightarrow> direct_wanted ev st"
    using direct_stage_cases [of ev st fr] nd out(2) by auto
  have gate: "direct_wanted ev st \<Longrightarrow>
        (EMOTION_MODE ev = ''direct'' \<or> EMOTION_MODE ev = ''hybrid'') \<and>
        (\<forall>d \<in> set (results_output st). emotion d = None)"
    by (auto simp: direct_wanted_def list_all_iff)
  have repl: "\<And>rs picked. direct_wanted ev st \<Longrightarrow> model ev fr Full_frame (1 / 4) = Inr rs \<Longrightarrow>
        pick_results fr rs [] = Inr picked \<Longrightarrow> picked \<noteq> [] \<Longrightarrow> faces out = picked"
    using direct_stage_replaces out(1) by simp
  show ?thesis
    by (rule exI [of _ st]) (use rs ran gate repl in blast)
qed

theorem direct_pass_gate_and_replacement_witness:
  "\<exists>out st. process_frame (ex_env ''hybrid'' [(10, 10, 100, 100)] ex_direct_model) ex_frame = Inr out \<and>
     region_stage (ex_env ''hybrid'' [(10, 10, 100, 100)] ex_direct_model) ex_frame = Inr st \<and>
     CallModel Full_frame (1 / 4) \<in> set (out_calls out) \<and>
     results_output st \<noteq> [] \<and> list_all (\<lambda>d. emotion d = None) (results_output st) \<and>
     map emotion (faces out) = [Some ''Fear'', Some ''Fear'']"
proof -
  let ?E = "ex_env ''hybrid'' [(10, 10, 100, 100)] ex_direct_model"
  let ?rs = "[\<lparr>boxes = Some [mk_box (2 / 5) 3, mk_box (1 / 2) 3], probs = None\<rparr>]"
  have "case process_frame ?E ex_frame of Inl e \<Rightarrow> False
        | Inr out \<Rightarrow> CallModel Full_frame (1 / 4) \<in> set (out_calls out)"
    by (simp add: eval_defs ex_direct_model_def)
  then obtain out where e: "process_frame ?E ex_frame = Inr out"
    and ran: "CallModel Full_frame (1 / 4) \<in> set (out_calls out)"
    by (cases "process_frame ?E ex_frame") auto
  have m: "model ?E ex_frame Full_frame (1 / 4) = Inr ?rs"
    by (simp add: ex_env_def ex_direct_model_def)
  have "case pick_results ex_frame ?rs [] of Inl e \<Rightarrow> False
        | Inr picked \<Rightarrow> map emotion picked = [Some ''Fear'', Some ''Fear'']"
    by (simp add: eval_defs)
  then obtain picked where p: "pick_results ex_frame ?rs [] = Inr picked"
    and l: "map emotion picked = [Some ''Fear'', Some ''Fear'']"
    by (cases "pick_results ex_frame ?rs []") auto
  have ne: "picked \<noteq> []" using l by auto
  from direct_pass_gate_and_replacement [OF e] obtain st where
    rs: "region_stage ?E ex_frame = Inr st"
    and g: "\<forall>d \<in> set (results_output st). emotion d = None"
    and r: "faces out = picked"
    using ran m p ne by blast
  have "case region_stage ?E ex_frame of Inl e \<Rightarrow> False | Inr st \<Rightarrow> results_output st \<noteq> []"
    by (simp add: eval_defs ex_direct_model_def)
  then have "results_output st \<noteq> []" using rs by simp
  then show ?thesis using e rs ran g r l by (auto simp: list_all_iff)
qed

subsection \<open>The label of a face region\<close>











subsection \<open>The fallback on the whole frame\<close>





subsection \<open>Coordinates stay inside the frame\<close>

lemma py_int_nonneg: "0 \<le> py_int (max 0 q)"
  by (simp add: py_int_def)

lemma py_int_upper: "py_int (max 0 (min b (of_nat n))) \<le> int n"
proof -
  have "max 0 (min b (of_nat n)) \<le> (of_int (int n) :: rat)" by simp
  then have "\<lfloor>max 0 (min b (of_nat n))\<rfloor> \<le> int n" by (simp only: floor_le_iff)
  then show ?thesis by (simp add: py_int_def)
qed

lemma py_int_upper1: "py_int (max 0 (min b (of_int (int n - 1)))) \<le> int n"
proof -
  have "max 0 (min b (of_int (int n - 1))) \<le> (of_int (int n) :: rat)"
    by (simp add: min_le_iff_disj)
  then have "\<lfloor>max 0 (min b (of_int (int n - 1)))\<rfloor> \<le> int n" by (simp only: floor_le_iff)
  then show ?thesis by (simp add: py_int_def)
qed

lemma py_int_ordered:
  assumes "a \<le> b"
  shows "py_int (max 0 (min a (of_int (int n - 1)))) \<le> py_int (max 0 (min b (of_nat n)))"
proof -
  have "(of_int (int n - 1) :: rat) \<le> of_nat n" by simp
  then have "max 0 (min a (of_int (int n - 1))) \<le> max 0 (min b (of_nat n))"
    using assms by (auto simp: max_def min_def)
  then have "\<lfloor>max 0 (min a (of_int (int n - 1)))\<rfloor> \<le> \<lfloor>max 0 (min b (of_nat n))\<rfloor>"
    by (rule floor_mono)
  then show ?thesis by (simp add: py_int_def)
qed

text \<open>Clamping alone (lines 155--158) puts each coordinate into the frame.\<close>

lemma clamp_inside:
  fixes a b :: int
  shows "0 \<le> max 0 (min a (int n - 1)) \<and> max 0 (min a (int n - 1)) \<le> int n \<and>
         0 \<le> max 0 (min b (int n)) \<and> max 0 (min b (int n)) \<le> int n"
  by (simp add: max_def min_def)

text \<open>The corners are in order when the width is not negative and no sum wraps.\<close>

lemma clamp_axis:
  fixes x w :: int
  assumes "0 \<le> w"
  shows "max 0 (min (max 0 (x - 20)) (int n - 1)) \<le> max 0 (min (min (int n) (x + w + 20)) (int n))"
  using assms by (simp add: max_def min_def)

lemma region_detection_inside:
  assumes "d = region_detection fr rect l c"
  shows "0 \<le> det_x1 d \<and> det_x1 d \<le> int (w_frame fr) \<and>
         0 \<le> det_x2 d \<and> det_x2 d \<le> int (w_frame fr) \<and>
         0 \<le> det_y1 d \<and> det_y1 d \<le> int (h_frame fr) \<and>
         0 \<le> det_y2 d \<and> det_y2 d \<le> int (h_frame fr)"
proof -
  obtain x1 y1 x2 y2 where r: "rect = (x1, y1, x2, y2)" by (metis surj_pair)
  have c: "det_x1 d = max 0 (min x1 (int (w_frame fr) - 1))"
    "det_x2 d = max 0 (min x2 (int (w_frame fr)))"
    "det_y1 d = max 0 (min y1 (int (h_frame fr) - 1))"
    "det_y2 d = max 0 (min y2 (int (h_frame fr)))"
    unfolding assms r region_detection_def by simp_all
  show ?thesis
    unfolding c using clamp_inside [of x1 "w_frame fr" x2] clamp_inside [of y1 "h_frame fr" y2]
    by (intro conjI) (elim conjE, assumption)+
qed

lemma region_detection_ordered:
  assumes "0 \<le> w" and "0 \<le> h"
    and "int32 (x - 20) = x - 20" and "int32 (int32 (x + w) + 20) = x + w + 20"
    and "int32 (y - 20) = y - 20" and "int32 (int32 (y + h) + 20) = y + h + 20"
    and "d = region_detection fr (padded fr (x, y, w, h)) l c"
  shows "det_x1 d \<le> det_x2 d \<and> det_y1 d \<le> det_y2 d"
proof -
  have c: "det_x1 d = max 0 (min (max 0 (x - 20)) (int (w_frame fr) - 1))"
    "det_x2 d = max 0 (min (min (int (w_frame fr)) (x + w + 20)) (int (w_frame fr)))"
    "det_y1 d = max 0 (min (max 0 (y - 20)) (int (h_frame fr) - 1))"
    "det_y2 d = max 0 (min (min (int (h_frame fr)) (y + h + 20)) (int (h_frame fr)))"
    unfolding assms(7) region_detection_def padded_def by (simp_all add: assms(3-6))
  show ?thesis
    unfolding c using clamp_axis [OF assms(1), of x "w_frame fr"]
      clamp_axis [OF assms(2), of y "h_frame fr"] by (intro conjI)
qed

text \<open>The coordinates a box yields: its own four, or the whole frame.\<close>

lemma box_coords_cases:
  assumes "box_coords fr b = Inr (x1, y1, x2, y2)"
  shows "box_xyxy b = Some [x1, y1, x2, y2] \<or>
         (x1, y1, x2, y2) = (0, 0, of_nat (w_frame fr), of_nat (h_frame fr))"
proof (cases "box_xyxy b")
  case None
  then show ?thesis using assms by (simp add: box_coords_def)
next
  case (Some l)
  show ?thesis
  proof (cases "l = []")
    case True
    then show ?thesis using assms Some by (simp add: box_coords_def)
  next
    case False
    then have "unpack4 l = Inr (x1, y1, x2, y2)" using assms Some by (simp add: box_coords_def)
    then have "l = [x1, y1, x2, y2]"
      by (auto simp: unpack4_def split: list.splits)
    then show ?thesis using Some by simp
  qed
qed

lemma direct_detection_inside:
  assumes "d = direct_detection fr conf k xyxy"
  shows "0 \<le> det_x1 d \<and> det_x1 d \<le> int (w_frame fr) \<and>
         0 \<le> det_x2 d \<and> det_x2 d \<le> int (w_frame fr) \<and>
         0 \<le> det_y1 d \<and> det_y1 d \<le> int (h_frame fr) \<and>
         0 \<le> det_y2 d \<and> det_y2 d \<le> int (h_frame fr)"
proof -
  obtain x1 y1 x2 y2 where r: "xyxy = (x1, y1, x2, y2)" by (metis surj_pair)
  have c: "det_x1 d = py_int (max 0 (min x1 (of_int (int (w_frame fr) - 1))))"
    "det_x2 d = py_int (max 0 (min x2 (of_nat (w_frame fr))))"
    "det_y1 d = py_int (max 0 (min y1 (of_int (int (h_frame fr) - 1))))"
    "det_y2 d = py_int (max 0 (min y2 (of_nat (h_frame fr))))"
    unfolding assms r direct_detection_def by simp_all
  show ?thesis
    unfolding c by (intro conjI py_int_nonneg py_int_upper py_int_upper1)
qed

lemma direct_detection_ordered:
  assumes "x1 \<le> x2" and "y1 \<le> y2" and "d = direct_detection fr conf k (x1, y1, x2, y2)"
  shows "det_x1 d \<le> det_x2 d \<and> det_y1 d \<le> det_y2 d"
proof -
  have c: "det_x1 d = py_int (max 0 (min x1 (of_int (int (w_frame fr) - 1))))"
    "det_x2 d = py_int (max 0 (min x2 (of_nat (w_frame fr))))"
    "det_y1 d = py_int (max 0 (min y1 (of_int (int (h_frame fr) - 1))))"
    "det_y2 d = py_int (max 0 (min y2 (of_nat (h_frame fr))))"
    unfolding assms(3) direct_detection_def by simp_all
  show ?thesis
    unfolding c by (intro conjI py_int_ordered assms(1,2))
qed

lemma detection_source:
  assumes "process_frame ev fr = Inr out" and "d \<in> set (faces out)"
  shows "(\<exists>found face l c. detectMultiScale ev fr = Inr found \<and> face \<in> set found \<and>
             d = region_detection fr (padded fr face) l c) \<or>
        (\<exists>rs r bs b. model ev fr Full_frame (1 / 4) = Inr rs \<and> r \<in> set rs \<and>
             boxes r = Some bs \<and> b \<in> set bs \<and> from_box fr b d)"
  using process_frame_origin [OF assms] by blast

text \<open>
  Claim C6, as stated, fails: the code clamps each coordinate alone (lines 155--158 and
  190--193) and never puts the corners in order. A box of the direct pass with corners
  \<^verbatim>\<open>[150, 10, 50, 120]\<close> keeps \<open>x1 = 150 > x2 = 50\<close>; a proposed rectangle
  \<^verbatim>\<open>(30, 30, -60, 100)\<close> gives the crop \<^verbatim>\<open>[10:-10]\<close> of 180 columns and the
  detection \<open>x1 = 10 > x2 = 0\<close>.
\<close>

theorem detection_bounds_counterexample:
  "(\<exists>out d. process_frame (ex_env ''direct'' [] ex_inverted_model) ex_frame = Inr out \<and>
      d \<in> set (faces out) \<and>
      (det_x1 d, det_y1 d, det_x2 d, det_y2 d) = (150, 10, 50, 120) \<and> det_x2 d < det_x1 d) \<and>
   (\<exists>out d. process_frame (ex_env ''cascade'' [(30, 30, - 60, 100)] ex_happy_model) ex_frame = Inr out \<and>
      d \<in> set (faces out) \<and>
      (det_x1 d, det_y1 d, det_x2 d, det_y2 d) = (10, 10, 0, 150) \<and> det_x2 d < det_x1 d)"
proof -
  let ?E1 = "ex_env ''direct'' [] ex_inverted_model"
  let ?E2 = "ex_env ''cascade'' [(30, 30, - 60, 100)] ex_happy_model"
  have "case process_frame ?E1 ex_frame of Inl e \<Rightarrow> False
        | Inr out \<Rightarrow> (case faces out of [] \<Rightarrow> False
            | d # ds \<Rightarrow> (det_x1 d, det_y1 d, det_x2 d, det_y2 d) = (150, 10, 50, 120))"
    by (simp add: eval_defs ex_inverted_model_def py_int_def)
  then obtain o1 where e1: "process_frame ?E1 ex_frame = Inr o1"
    and f1: "case faces o1 of [] \<Rightarrow> False
            | d # ds \<Rightarrow> (det_x1 d, det_y1 d, det_x2 d, det_y2 d) = (150, 10, 50, 120)"
    by (cases "process_frame ?E1 ex_frame") auto
  then obtain d1 ds1 where "faces o1 = d1 # ds1"
    and c1: "(det_x1 d1, det_y1 d1, det_x2 d1, det_y2 d1) = (150, 10, 50, 120)"
    by (cases "faces o1") auto
  then have m1: "d1 \<in> set (faces o1)" and l1: "det_x2 d1 < det_x1 d1" by simp_all
  have "case process_frame ?E2 ex_frame of Inl e \<Rightarrow> False
        | Inr out \<Rightarrow> (case faces out of [] \<Rightarrow> False
            | d # ds \<Rightarrow> (det_x1 d, det_y1 d, det_x2 d, det_y2 d) = (10, 10, 0, 150))"
    by (simp add: eval_defs ex_happy_model_def)
  then obtain o2 where e2: "process_frame ?E2 ex_frame = Inr o2"
    and f2: "case faces o2 of [] \<Rightarrow> False
            | d # ds \<Rightarrow> (det_x1 d, det_y1 d, det_x2 d, det_y2 d) = (10, 10, 0, 150)"
    by (cases "process_frame ?E2 ex_frame") auto
  then obtain d2 ds2 where "faces o2 = d2 # ds2"
    and c2: "(det_x1 d2, det_y1 d2, det_x2 d2, det_y2 d2) = (10, 10, 0, 150)"
    by (cases "faces o2") auto
  then have m2: "d2 \<in> set (faces o2)" and l2: "det_x2 d2 < det_x1 d2" by simp_all
  show ?thesis using e1 m1 c1 l1 e2 m2 c2 l2 by blast
qed

text \<open>
  Claim C6, amended: every coordinate of every detection returned, of the face loop or
  of the direct pass, lies in the frame (\<open>0 \<le> x1, x2 \<le> width\<close> and
  \<open>0 \<le> y1, y2 \<le> height\<close>); and \<open>x1 \<le> x2\<close>, \<open>y1 \<le> y2\<close> hold when the two
  components outside the repository keep their contracts: the proposer's rectangles have
  a width and a height that are not negative and padded corners that do not wrap around
  at 32 bits, and a box of the classifier has its corners in order.
\<close>

theorem detection_bounds:
  assumes "process_frame ev fr = Inr out" and "d \<in> set (faces out)"
  shows "0 \<le> det_x1 d \<and> det_x1 d \<le> int (w_frame fr) \<and>
         0 \<le> det_x2 d \<and> det_x2 d \<le> int (w_frame fr) \<and>
         0 \<le> det_y1 d \<and> det_y1 d \<le> int (h_frame fr) \<and>
         0 \<le> det_y2 d \<and> det_y2 d \<le> int (h_frame fr) \<and>
         ((\<forall>found x y w h. detectMultiScale ev fr = Inr found \<longrightarrow> (x, y, w, h) \<in> set found \<longrightarrow>
              0 \<le> w \<and> 0 \<le> h \<and>
              int32 (x - 20) = x - 20 \<and> int32 (int32 (x + w) + 20) = x + w + 20 \<and>
              int32 (y - 20) = y - 20 \<and> int32 (int32 (y + h) + 20) = y + h + 20) \<and>
          (\<forall>rs r bs b x1 y1 x2 y2. model ev fr Full_frame (1 / 4) = Inr rs \<longrightarrow> r \<in> set rs \<longrightarrow>
              boxes r = Some bs \<longrightarrow> b \<in> set bs \<longrightarrow> box_xyxy b = Some [x1, y1, x2, y2] \<longrightarrow>
              x1 \<le> x2 \<and> y1 \<le> y2) \<longrightarrow>
          det_x1 d \<le> det_x2 d \<and> det_y1 d \<le> det_y2 d)"
proof -
  let ?inside = "0 \<le> det_x1 d \<and> det_x1 d \<le> int (w_frame fr) \<and>
         0 \<le> det_x2 d \<and> det_x2 d \<le> int (w_frame fr) \<and>
         0 \<le> det_y1 d \<and> det_y1 d \<le> int (h_frame fr) \<and>
         0 \<le> det_y2 d \<and> det_y2 d \<le> int (h_frame fr)"
  let ?hp = "\<forall>found x y w h. detectMultiScale ev fr = Inr found \<longrightarrow> (x, y, w, h) \<in> set found \<longrightarrow>
              0 \<le> w \<and> 0 \<le> h \<and>
              int32 (x - 20) = x - 20 \<and> int32 (int32 (x + w) + 20) = x + w + 20 \<and>
              int32 (y - 20) = y - 20 \<and> int32 (int32 (y + h) + 20) = y + h + 20"
  let ?hc = "\<forall>rs r bs b x1 y1 x2 y2. model ev fr Full_frame (1 / 4) = Inr rs \<longrightarrow> r \<in> set rs \<longrightarrow>
              boxes r = Some bs \<longrightarrow> b \<in> set bs \<longrightarrow> box_xyxy b = Some [x1, y1, x2, y2] \<longrightarrow>
              x1 \<le> x2 \<and> y1 \<le> y2"
  have "?inside \<and> (?hp \<and> ?hc \<longrightarrow> det_x1 d \<le> det_x2 d \<and> det_y1 d \<le> det_y2 d)"
    using detection_source [OF assms]
  proof (elim disjE conjE exE)
    fix found face l c
    assume f: "detectMultiScale ev fr = Inr found" "face \<in> set found"
      and d: "d = region_detection fr (padded fr face) l c"
    obtain x y w h where face: "face = (x, y, w, h)" by (metis surj_pair)
    have i: ?inside using d by (rule region_detection_inside)
    have "det_x1 d \<le> det_x2 d \<and> det_y1 d \<le> det_y2 d" if hp: ?hp
    proof -
      have "0 \<le> w \<and> 0 \<le> h \<and>
              int32 (x - 20) = x - 20 \<and> int32 (int32 (x + w) + 20) = x + w + 20 \<and>
              int32 (y - 20) = y - 20 \<and> int32 (int32 (y + h) + 20) = y + h + 20"
        using hp f face by blast
      then show ?thesis using region_detection_ordered [of w h x y d fr l c] d face by blast
    qed
    then show ?thesis using i by blast
  next
    fix rs r bs b
    assume m: "model ev fr Full_frame (1 / 4) = Inr rs" "r \<in> set rs" "boxes r = Some bs"
      "b \<in> set bs" and fb: "from_box fr b d"
    from fb obtain conf k xyxy where bc: "box_coords fr b = Inr xyxy"
      and d: "d = direct_detection fr conf k xyxy"
      unfolding from_box_def by blast
    obtain x1 y1 x2 y2 where q: "xyxy = (x1, y1, x2, y2)" by (metis surj_pair)
    have i: ?inside using d by (rule direct_detection_inside)
    have "det_x1 d \<le> det_x2 d \<and> det_y1 d \<le> det_y2 d" if hc: ?hc
    proof -
      have "box_xyxy b = Some [x1, y1, x2, y2] \<Longrightarrow> x1 \<le> x2 \<and> y1 \<le> y2"
        using hc m by blast
      then have "x1 \<le> x2 \<and> y1 \<le> y2"
        using box_coords_cases [OF bc [unfolded q]] by auto
      then show ?thesis using direct_detection_ordered d q by blast
    qed
    then show ?thesis using i by blast
  qed
  then show ?thesis by simp
qed

theorem detection_bounds_witness:
  "(\<exists>out d. process_frame (ex_env ''cascade'' [(150, 150, 100, 100)] ex_happy_model) ex_frame = Inr out \<and>
      d \<in> set (faces out) \<and>
      (det_x1 d, det_y1 d, det_x2 d, det_y2 d) = (130, 130, 200, 200) \<and>
      0 \<le> det_x1 d \<and> det_x2 d \<le> int (w_frame ex_frame) \<and>
      0 \<le> det_y1 d \<and> det_y2 d \<le> int (h_frame ex_frame) \<and>
      det_x1 d \<le> det_x2 d \<and> det_y1 d \<le> det_y2 d) \<and>
   (\<exists>out d. process_frame (ex_env ''direct'' [] ex_box_model) ex_frame = Inr out \<and>
      d \<in> set (faces out) \<and>
      (det_x1 d, det_y1 d, det_x2 d, det_y2 d) = (0, 10, 200, 120) \<and>
      0 \<le> det_x1 d \<and> det_x2 d \<le> int (w_frame ex_frame) \<and>
      0 \<le> det_y1 d \<and> det_y2 d \<le> int (h_frame ex_frame) \<and>
      det_x1 d \<le> det_x2 d \<and> det_y1 d \<le> det_y2 d)"
proof -
  let ?E1 = "ex_env ''cascade'' [(150, 150, 100, 100)] ex_happy_model"
  let ?E2 = "ex_env ''direct'' [] ex_box_model"
  have "case process_frame ?E1 ex_frame of Inl e \<Rightarrow> False
        | Inr out \<Rightarrow> (case faces out of [] \<Rightarrow> False
            | d # ds \<Rightarrow> (det_x1 d, det_y1 d, det_x2 d, det_y2 d) = (130, 130, 200, 200))"
    by (simp add: eval_defs ex_happy_model_def)
  then obtain o1 where e1: "process_frame ?E1 ex_frame = Inr o1"
    and f1: "case faces o1 of [] \<Rightarrow> False
            | d # ds \<Rightarrow> (det_x1 d, det_y1 d, det_x2 d, det_y2 d) = (130, 130, 200, 200)"
    by (cases "process_frame ?E1 ex_frame") auto
  then obtain d1 ds1 where "faces o1 = d1 # ds1"
    and c1: "(det_x1 d1, det_y1 d1, det_x2 d1, det_y2 d1) = (130, 130, 200, 200)"
    by (cases "faces o1") auto
  then have m1: "d1 \<in> set (faces o1)" by simp
  have hp1: "\<forall>found x y w h. detectMultiScale ?E1 ex_frame = Inr found \<longrightarrow>
              (x, y, w, h) \<in> set found \<longrightarrow>
              0 \<le> w \<and> 0 \<le> h \<and>
              int32 (x - 20) = x - 20 \<and> int32 (int32 (x + w) + 20) = x + w + 20 \<and>
              int32 (y - 20) = y - 20 \<and> int32 (int32 (y + h) + 20) = y + h + 20"
    by (auto simp: ex_env_def int32_id)
  have hc1: "\<forall>rs r bs b x1 y1 x2 y2. model ?E1 ex_frame Full_frame (1 / 4) = Inr rs \<longrightarrow>
              r \<in> set rs \<longrightarrow> boxes r = Some bs \<longrightarrow> b \<in> set bs \<longrightarrow>
              box_xyxy b = Some [x1, y1, x2, y2] \<longrightarrow> x1 \<le> x2 \<and> y1 \<le> y2"
    by (auto simp: ex_env_def ex_happy_model_def mk_box_def)
  from detection_bounds [OF e1 m1] hp1 hc1
  have b1: "0 \<le> det_x1 d1 \<and> det_x2 d1 \<le> int (w_frame ex_frame) \<and>
      0 \<le> det_y1 d1 \<and> det_y2 d1 \<le> int (h_frame ex_frame) \<and>
      det_x1 d1 \<le> det_x2 d1 \<and> det_y1 d1 \<le> det_y2 d1"
    by blast
  have "case process_frame ?E2 ex_frame of Inl e \<Rightarrow> False
        | Inr out \<Rightarrow> (case faces out of [] \<Rightarrow> False
            | d # ds \<Rightarrow> (det_x1 d, det_y1 d, det_x2 d, det_y2 d) = (0, 10, 200, 120))"
    by (simp add: eval_defs ex_box_model_def py_int_def floor_eq_iff)
  then obtain o2 where e2: "process_frame ?E2 ex_frame = Inr o2"
    and f2: "case faces o2 of [] \<Rightarrow> False
            | d # ds \<Rightarrow> (det_x1 d, det_y1 d, det_x2 d, det_y2 d) = (0, 10, 200, 120)"
    by (cases "process_frame ?E2 ex_frame") auto
  then obtain d2 ds2 where "faces o2 = d2 # ds2"
    and c2: "(det_x1 d2, det_y1 d2, det_x2 d2, det_y2 d2) = (0, 10, 200, 120)"
    by (cases "faces o2") auto
  then have m2: "d2 \<in> set (faces o2)" by simp
  have hp2: "\<forall>found x y w h. detectMultiScale ?E2 ex_frame = Inr found \<longrightarrow>
              (x, y, w, h) \<in> set found \<longrightarrow>
              0 \<le> w \<and> 0 \<le> h \<and>
              int32 (x - 20) = x - 20 \<and> int32 (int32 (x + w) + 20) = x + w + 20 \<and>
              int32 (y - 20) = y - 20 \<and> int32 (int32 (y + h) + 20) = y + h + 20"
    by (auto simp: ex_env_def)
  have hc2: "\<forall>rs r bs b x1 y1 x2 y2. model ?E2 ex_frame Full_frame (1 / 4) = Inr rs \<longrightarrow>
              r \<in> set rs \<longrightarrow> boxes r = Some bs \<longrightarrow> b \<in> set bs \<longrightarrow>
              box_xyxy b = Some [x1, y1, x2, y2] \<longrightarrow> x1 \<le> x2 \<and> y1 \<le> y2"
    by (auto simp: ex_env_def ex_box_model_def)
  from detection_bounds [OF e2 m2] hp2 hc2
  have b2: "0 \<le> det_x1 d2 \<and> det_x2 d2 \<le> int (w_frame ex_frame) \<and>
      0 \<le> det_y1 d2 \<and> det_y2 d2 \<le> int (h_frame ex_frame) \<and>
      det_x1 d2 \<le> det_x2 d2 \<and> det_y1 d2 \<le> det_y2 d2"
    by blast
  show ?thesis using e1 m1 c1 b1 e2 m2 c2 b2 by blast
qed

subsection \<open>The request loop\<close>

text \<open>
  Claim C1 (one response for every non-empty line, also on failure) does not hold of the
  code. When \<^verbatim>\<open>json.loads\<close> returns a value that is not a dict, here the list of the
  line \<^verbatim>\<open>[]\<close>, \<^verbatim>\<open>payload.get("id")\<close> raises AttributeError inside the
  \<^verbatim>\<open>try\<close>; the handler of line 244 calls \<^verbatim>\<open>payload.get("id")\<close> again, and that
  second AttributeError is outside every \<^verbatim>\<open>try\<close>: the loop ends with no response
  printed for the line.
\<close>

theorem non_object_line_ends_the_loop:
  "main_loop (ex_env ''cascade'' [] (\<lambda>t c. Inr [])) [''[]'' @ [CHR 0x0A]] =
     ([], Some (Exn ''AttributeError''
                  (CHR 0x27 # ''list'' @ CHR 0x27 # '' object has no attribute '' @
                   CHR 0x27 # ''get'' @ [CHR 0x27])))"
  by (simp add: loop_defs)

subsection \<open>A failing classifier call on a face\<close>

text \<open>
  Claim C5 (a classifier failure on a face region is recorded in the diagnostics) does
  not hold of the code. With one proposed face and a model that raises on the crop,
  line 78 goes to the next face: the request is answered, but \<^verbatim>\<open>debug\<close> is empty, so
  the failure leaves no diagnostic record (the fallback and the direct pass do record
  theirs, lines 148 and 208).
\<close>

theorem region_failure_leaves_no_trace:
  "process_frame
     (ex_env ''cascade'' [(10, 10, 100, 100)] (\<lambda>t c. Inl (Exn ''RuntimeError'' ''boom'')))
     ex_frame =
     Inr \<lparr>faces = [], dominant = None, dims = (200, 200), debug = [],
          out_calls = [CallProposer, CallModel (Roi 0 130 0 130) (1 / 20)]\<rparr>"
  by (simp add: eval_defs)

end
